theory Spec2Isabelle
  imports Main "HOL-Library.AList" "HOL-Library.Sublist"
begin

section \<open>Strings of the host language\<close>

text \<open>
  The program is TypeScript (\<^verbatim>\<open>src/index.ts\<close>). A string of the program is a list
  of UTF-16 code units. The model has the code units of Latin-1, \<^verbatim>\<open>U+0000\<close> to
  \<^verbatim>\<open>U+00FF\<close>, one for each \<^typ>\<open>char\<close>, and the three code units that the case
  mappings of ECMAScript reach from there: \<^verbatim>\<open>U+0178\<close> (the upper case of
  \<^verbatim>\<open>U+00FF\<close>), \<^verbatim>\<open>U+039C\<close> (the upper case of the micro sign \<^verbatim>\<open>U+00B5\<close>) and
  \<^verbatim>\<open>U+03BC\<close> (the lower case of \<^verbatim>\<open>U+039C\<close>). This alphabet is closed under
  \<^verbatim>\<open>toLowerCase()\<close> and \<^verbatim>\<open>toUpperCase()\<close>; on it the character classes the program
  tests (\<^verbatim>\<open>[a-z0-9]\<close>, \<^verbatim>\<open>[_-]\<close>, \<^verbatim>\<open>\s\<close>), \<^verbatim>\<open>trim()\<close> and the case mappings are
  those of ECMAScript. A string with any other code unit is outside the model.
  \<^verbatim>\<open>str\<close> reads a string literal.
\<close>

datatype jschar =
    Latin1 char
  | CapitalYDiaeresis
  | GreekCapitalMu
  | GreekSmallMu

type_synonym jsstring = "jschar list"

fun codeUnit :: "jschar \<Rightarrow> nat" where
  "codeUnit (Latin1 c) = of_char c"
| "codeUnit CapitalYDiaeresis = 0x178"
| "codeUnit GreekCapitalMu = 0x39C"
| "codeUnit GreekSmallMu = 0x3BC"

definition str :: "string \<Rightarrow> jsstring" where
  "str s = map Latin1 s"

definition isWhiteSpace :: "jschar \<Rightarrow> bool" where
  \<comment> \<open>\<^verbatim>\<open>\s\<close> and the characters \<^verbatim>\<open>trim()\<close> strips: TAB, LF, VT, FF, CR, SPACE and the
      no-break space \<^verbatim>\<open>U+00A0\<close>; the other white space of ECMAScript lies above
      \<^verbatim>\<open>U+00FF\<close>, and none of it is one of the three code units above.\<close>
  "isWhiteSpace c = (let n = codeUnit c in (9 \<le> n \<and> n \<le> 13) \<or> n = 32 \<or> n = 160)"

definition isLowerAlnum :: "jschar \<Rightarrow> bool" where
  \<comment> \<open>the class \<^verbatim>\<open>[a-z0-9]\<close>\<close>
  "isLowerAlnum c = (let n = codeUnit c in (97 \<le> n \<and> n \<le> 122) \<or> (48 \<le> n \<and> n \<le> 57))"

definition notLowerAlnum :: "jschar \<Rightarrow> bool" where
  \<comment> \<open>the class \<^verbatim>\<open>[^a-z0-9]\<close>\<close>
  "notLowerAlnum c = (\<not> isLowerAlnum c)"

definition isHyphen :: "jschar \<Rightarrow> bool" where
  "isHyphen c = (c = Latin1 CHR ''-'')"

definition isUnderscoreOrHyphen :: "jschar \<Rightarrow> bool" where
  \<comment> \<open>the class \<^verbatim>\<open>[_-]\<close>\<close>
  "isUnderscoreOrHyphen c = (c = Latin1 CHR ''_'' \<or> c = Latin1 CHR ''-'')"

fun lowerChar :: "jschar \<Rightarrow> jschar" where
  \<comment> \<open>the lower case of one code unit: \<^verbatim>\<open>A-Z\<close>, and \<^verbatim>\<open>U+00C0\<close> to \<^verbatim>\<open>U+00DE\<close> without
      the multiplication sign \<^verbatim>\<open>U+00D7\<close>, move up by 32\<close>
  "lowerChar (Latin1 c) =
     (let n = (of_char c :: nat)
      in if (65 \<le> n \<and> n \<le> 90) \<or> (192 \<le> n \<and> n \<le> 222 \<and> n \<noteq> 215)
         then Latin1 (char_of (n + 32)) else Latin1 c)"
| "lowerChar CapitalYDiaeresis = Latin1 (CHR 0xFF)"
| "lowerChar GreekCapitalMu = GreekSmallMu"
| "lowerChar GreekSmallMu = GreekSmallMu"

fun upperChar :: "jschar \<Rightarrow> jsstring" where
  \<comment> \<open>the upper case of one code unit: \<^verbatim>\<open>a-z\<close>, and \<^verbatim>\<open>U+00E0\<close> to \<^verbatim>\<open>U+00FE\<close> without
      the division sign \<^verbatim>\<open>U+00F7\<close>, move down by 32; the sharp s \<^verbatim>\<open>U+00DF\<close> becomes
      \<^verbatim>\<open>SS\<close>\<close>
  "upperChar (Latin1 c) =
     (let n = (of_char c :: nat)
      in if (97 \<le> n \<and> n \<le> 122) \<or> (224 \<le> n \<and> n \<le> 254 \<and> n \<noteq> 247)
         then [Latin1 (char_of (n - 32))]
         else if n = 223 then str ''SS''
         else if n = 255 then [CapitalYDiaeresis]
         else if n = 181 then [GreekCapitalMu]
         else [Latin1 c])"
| "upperChar CapitalYDiaeresis = [CapitalYDiaeresis]"
| "upperChar GreekCapitalMu = [GreekCapitalMu]"
| "upperChar GreekSmallMu = [GreekCapitalMu]"

definition toLowerCase :: "jsstring \<Rightarrow> jsstring" where
  "toLowerCase s = map lowerChar s"

definition toUpperCase :: "jsstring \<Rightarrow> jsstring" where
  "toUpperCase s = concat (map upperChar s)"

definition dropWhileEnd :: "(jschar \<Rightarrow> bool) \<Rightarrow> jsstring \<Rightarrow> jsstring" where
  \<comment> \<open>removes the longest suffix whose characters all satisfy the predicate\<close>
  "dropWhileEnd p s = rev (dropWhile p (rev s))"

definition trim :: "jsstring \<Rightarrow> jsstring" where
  \<comment> \<open>\<^verbatim>\<open>s.trim()\<close>\<close>
  "trim s = dropWhileEnd isWhiteSpace (dropWhile isWhiteSpace s)"

function replaceRuns :: "(jschar \<Rightarrow> bool) \<Rightarrow> jsstring \<Rightarrow> jsstring \<Rightarrow> jsstring" where
  \<comment> \<open>\<^verbatim>\<open>s.replace(/[C]+/g, r)\<close> for a character class \<^verbatim>\<open>C\<close>: the greedy \<^verbatim>\<open>+\<close> takes each
      maximal run of class characters, and the global flag replaces every run.\<close>
  "replaceRuns p r [] = []"
| "replaceRuns p r (c # cs) =
     (if p c then r @ replaceRuns p r (dropWhile p cs) else c # replaceRuns p r cs)"
  by pat_completeness auto
termination
  by (relation "measure (\<lambda>(p, r, s). length s)") (auto simp: less_Suc_eq_le length_dropWhile_le)

definition trimHyphens :: "jsstring \<Rightarrow> jsstring" where
  \<comment> \<open>\<^verbatim>\<open>s.replace(/^-+|-+$/g, "")\<close>: the run of hyphens at the start and the run at the
      end are deleted; a hyphen inside matches neither alternative.\<close>
  "trimHyphens s = dropWhileEnd isHyphen (dropWhile isHyphen s)"

fun split :: "jschar \<Rightarrow> jsstring \<Rightarrow> jsstring list" where
  \<comment> \<open>\<^verbatim>\<open>s.split(sep)\<close> for a separator of one character; \<^verbatim>\<open>"".split(" ")\<close> is \<^verbatim>\<open>[""]\<close>.\<close>
  "split sep [] = [[]]"
| "split sep (c # cs) =
     (if c = sep then [] # split sep cs
      else (case split sep cs of w # ws \<Rightarrow> (c # w) # ws | [] \<Rightarrow> [[c]]))"

fun join :: "jsstring \<Rightarrow> jsstring list \<Rightarrow> jsstring" where
  \<comment> \<open>\<^verbatim>\<open>words.join(sep)\<close>\<close>
  "join sep [] = []"
| "join sep [w] = w"
| "join sep (w # v # ws) = w @ sep @ join sep (v # ws)"

section \<open>Name Normalizer\<close>

definition capitalize :: "jsstring \<Rightarrow> jsstring" where
  \<comment> \<open>\<^verbatim>\<open>word.charAt(0).toUpperCase() + word.slice(1).toLowerCase()\<close>\<close>
  "capitalize word = toUpperCase (take 1 word) @ toLowerCase (drop 1 word)"

definition toDisplayName :: "jsstring \<Rightarrow> jsstring" where
  "toDisplayName v =
     (let words = filter (\<lambda>w. w \<noteq> [])
            (split (Latin1 CHR '' '') (trim (replaceRuns isWhiteSpace (str '' '')
               (replaceRuns isUnderscoreOrHyphen (str '' '') v))))
      in if length words = 0 then str ''Snail Plugin''
         else join (str '' '') (map capitalize words))"

definition toSlug :: "jsstring \<Rightarrow> jsstring" where
  "toSlug v =
     (let slug = trimHyphens (replaceRuns notLowerAlnum (str ''-'') (toLowerCase (trim v)))
      in if slug = [] then str ''snail-plugin'' else slug)"

section \<open>The specification's wording of the Name Normalizer\<close>

text \<open>
  The pattern \<^verbatim>\<open>^[a-z0-9]+(-[a-z0-9]+)*$\<close> as a recogniser with two states: the flag says
  that a character of \<^verbatim>\<open>[a-z0-9]\<close> must come next (at the start and after a hyphen).
\<close>

fun slugFrom :: "bool \<Rightarrow> jsstring \<Rightarrow> bool" where
  "slugFrom need [] = (\<not> need)"
| "slugFrom need (c # cs) =
     (if isLowerAlnum c then slugFrom False cs
      else c = Latin1 CHR ''-'' \<and> \<not> need \<and> slugFrom True cs)"

definition matchesSlug :: "jsstring \<Rightarrow> bool" where
  "matchesSlug s = slugFrom True s"

text \<open>
  The maximal runs of a string with respect to a character class: each run is a longest
  stretch of characters that are all inside or all outside the class.
\<close>

function runs :: "(jschar \<Rightarrow> bool) \<Rightarrow> jsstring \<Rightarrow> jsstring list" where
  "runs p [] = []"
| "runs p (c # cs) =
     (c # takeWhile (\<lambda>d. p d = p c) cs) # runs p (dropWhile (\<lambda>d. p d = p c) cs)"
  by pat_completeness auto
termination
  by (relation "measure (\<lambda>(p, s). length s)") (auto simp: less_Suc_eq_le length_dropWhile_le)

definition spec_toSlug :: "jsstring \<Rightarrow> jsstring" where
  "spec_toSlug s =
     (let lowered = toLowerCase s;
          hyphenated = concat (map (\<lambda>run. if list_all notLowerAlnum run then str ''-'' else run)
                                   (runs notLowerAlnum lowered));
          trimmed = dropWhileEnd isHyphen (dropWhile isHyphen hyphenated)
      in if trimmed = [] then str ''snail-plugin'' else trimmed)"





section \<open>Paths\<close>

text \<open>
  A path is the list of its components from the root: what \<^verbatim>\<open>path.resolve\<close> and
  \<^verbatim>\<open>path.join\<close> of Node return on a POSIX system, absolute and normalised. The empty
  list is the root. Joining and resolving walk the segments between slashes: an empty
  segment and \<^verbatim>\<open>.\<close> stay, \<^verbatim>\<open>..\<close> goes up.
\<close>

type_synonym path = "jsstring list"

definition pathStep :: "path \<Rightarrow> jsstring \<Rightarrow> path" where
  "pathStep p seg =
     (if seg = [] \<or> seg = str ''.'' then p else if seg = str ''..'' then butlast p else p @ [seg])"

definition path_join :: "path \<Rightarrow> jsstring \<Rightarrow> path" where
  "path_join dir name = foldl pathStep dir (split (Latin1 CHR ''/'') name)"

definition path_resolve :: "path \<Rightarrow> jsstring \<Rightarrow> path" where
  "path_resolve cwd p =
     (if take 1 p = str ''/'' then foldl pathStep [] (split (Latin1 CHR ''/'') p)
      else foldl pathStep cwd (split (Latin1 CHR ''/'') p))"

definition pathString :: "path \<Rightarrow> jsstring" where
  "pathString p = (if p = [] then str ''/'' else concat (map (\<lambda>seg. str ''/'' @ seg) p))"

section \<open>File system\<close>

text \<open>
  The destination side of the file system is explicit state: \<^verbatim>\<open>nodes\<close> maps each
  existing path to a regular file with its content or to a directory (an association
  list, read with \<^const>\<open>map_of\<close>), and \<^verbatim>\<open>calls\<close> records, in order, every call of
  \<^verbatim>\<open>mkdir\<close> and \<^verbatim>\<open>writeFile\<close> the program issues. A failing call leaves the nodes
  as they were, and the state survives the exception: every operation returns its result
  together with the state. \<^verbatim>\<open>mkdir\<close> is the recursive one (\<^verbatim>\<open>{ recursive: true }\<close>);
  \<^verbatim>\<open>writeFile\<close> opens with the default flag \<^verbatim>\<open>w\<close>, which creates the file or
  replaces its content. Symbolic links, special files and permissions are not modelled.
\<close>

datatype inode = IFile jsstring | IDir

datatype syscall = Mkdir path | WriteFile path jsstring

record world =
  nodes :: "(path \<times> inode) list"
  calls :: "syscall list"

datatype error =
    Error jsstring
  | ENOENT path
  | ENOTDIR path
  | EEXIST path
  | EISDIR path
  | OutsideFragment

definition lookupNode :: "world \<Rightarrow> path \<Rightarrow> inode option" where
  "lookupNode w p = (if p = [] then Some IDir else map_of (nodes w) p)"

definition existsSync :: "world \<Rightarrow> path \<Rightarrow> bool" where
  "existsSync w p = (lookupNode w p \<noteq> None)"

definition stat :: "world \<Rightarrow> path \<Rightarrow> error + inode" where
  "stat w p = (case lookupNode w p of None \<Rightarrow> Inl (ENOENT p) | Some n \<Rightarrow> Inr n)"

fun stats_isDirectory :: "inode \<Rightarrow> bool" where
  "stats_isDirectory IDir = True"
| "stats_isDirectory (IFile d) = False"

definition readdir :: "world \<Rightarrow> path \<Rightarrow> error + jsstring list" where
  "readdir w p =
     (case lookupNode w p of
        None \<Rightarrow> Inl (ENOENT p)
      | Some (IFile d) \<Rightarrow> Inl (ENOTDIR p)
      | Some IDir \<Rightarrow>
          Inr (remdups (map last (filter (\<lambda>q. q \<noteq> [] \<and> butlast q = p) (map fst (nodes w))))))"

definition properAncestors :: "path \<Rightarrow> path list" where
  "properAncestors p = map (\<lambda>n. take n p) [1..<length p]"

definition addDir :: "(path \<times> inode) list \<Rightarrow> path \<Rightarrow> (path \<times> inode) list" where
  "addDir ns q = (if q = [] then ns else case map_of ns q of None \<Rightarrow> ns @ [(q, IDir)] | Some n \<Rightarrow> ns)"

fun isFileNode :: "inode option \<Rightarrow> bool" where
  "isFileNode (Some (IFile d)) = True"
| "isFileNode n = False"

definition mkdir :: "path \<Rightarrow> world \<Rightarrow> (error + unit) \<times> world" where
  "mkdir p w =
     (let w1 = w\<lparr>calls := calls w @ [Mkdir p]\<rparr> in
      if list_ex (\<lambda>q. isFileNode (lookupNode w q)) (properAncestors p) then (Inl (ENOTDIR p), w1)
      else if isFileNode (lookupNode w p) then (Inl (EEXIST p), w1)
      else (Inr (), w1\<lparr>nodes := foldl addDir (nodes w) (properAncestors p @ [p])\<rparr>))"

definition writeFile :: "path \<Rightarrow> jsstring \<Rightarrow> world \<Rightarrow> (error + unit) \<times> world" where
  "writeFile p d w =
     (let w1 = w\<lparr>calls := calls w @ [WriteFile p d]\<rparr> in
      if p = [] then (Inl (EISDIR p), w1)
      else case lookupNode w (butlast p) of
          None \<Rightarrow> (Inl (ENOENT p), w1)
        | Some (IFile x) \<Rightarrow> (Inl (ENOTDIR p), w1)
        | Some IDir \<Rightarrow>
            (case lookupNode w p of
               Some IDir \<Rightarrow> (Inl (EISDIR p), w1)
             | _ \<Rightarrow> (Inr (), w1\<lparr>nodes := AList.update p (IFile d) (nodes w)\<rparr>)))"

section \<open>Destination Guard\<close>

text \<open>
  The program throws plain \<^verbatim>\<open>Error\<close> objects. The specification's
  \<^verbatim>\<open>DestinationError\<close> is the kind of the two errors \<^verbatim>\<open>ensureDirectoryIsEmpty\<close>
  throws, told apart by their messages.
\<close>

definition notADirectoryMessage :: "path \<Rightarrow> jsstring" where
  "notADirectoryMessage dir = str ''Path \"'' @ pathString dir @ str ''\" already exists and is not a directory.''"

definition notEmptyMessage :: "path \<Rightarrow> jsstring" where
  "notEmptyMessage dir = str ''Directory \"'' @ pathString dir @ str ''\" already exists and is not empty.''"

definition ensureDirectoryIsEmpty :: "path \<Rightarrow> world \<Rightarrow> (error + unit) \<times> world" where
  "ensureDirectoryIsEmpty dir w =
     (if \<not> existsSync w dir then (Inr (), w)
      else case stat w dir of
          Inl e \<Rightarrow> (Inl e, w)
        | Inr stats \<Rightarrow>
            if \<not> stats_isDirectory stats then (Inl (Error (notADirectoryMessage dir)), w)
            else (case readdir w dir of
                Inl e \<Rightarrow> (Inl e, w)
              | Inr contents \<Rightarrow>
                  if length contents > 0 then (Inl (Error (notEmptyMessage dir)), w)
                  else (Inr (), w)))"

definition DestinationError :: "path \<Rightarrow> error \<Rightarrow> bool" where
  "DestinationError dir e =
     (e = Error (notADirectoryMessage dir) \<or> e = Error (notEmptyMessage dir))"


section \<open>Records of the program\<close>

text \<open>
  The three record types of the program. The answers of the prompts and the command line
  options are declared first, so that a bare field name is the context's.
\<close>

record PromptAnswers =
  projectName :: "jsstring option"
  pluginName :: "jsstring option"
  pluginDescription :: "jsstring option"
  pluginIcon :: "jsstring option"

record CreateOptions =
  directory :: "jsstring option"
  pluginName :: "jsstring option"
  description :: "jsstring option"
  icon :: "jsstring option"

record TemplateContext =
  pluginName :: jsstring
  pluginDescription :: jsstring
  pluginIcon :: jsstring
  projectName :: jsstring
  projectSlug :: jsstring


section \<open>Template Renderer\<close>

text \<open>
  \<^verbatim>\<open>Handlebars.compile(templateContent)(context)\<close> is a call into the Handlebars
  library, with no options: not strict, HTML escaping on. The model covers the fragment of
  the template language in which every mustache is \<^verbatim>\<open>{{name}}\<close> with a plain
  identifier (letters, digits and underscores, not starting with a digit, none of the
  words the library reserves for literals, helpers and the object prototype), white
  space allowed around the name. There the library looks the name up in the context,
  renders an own field HTML-escaped and a name that is not a field as the empty string.
  Every other template (blocks, comments, partials, triple mustaches, paths, escaped
  mustaches, a NUL character) is outside the fragment: \<^verbatim>\<open>render\<close> is \<^const>\<open>None\<close>
  there and \<^verbatim>\<open>Handlebars_compile\<close> answers \<^verbatim>\<open>OutsideFragment\<close>, which says nothing
  about the library. The tree walk below takes the compiler as a parameter, so what is
  proved of the walk holds for any behaviour of the library.
\<close>

definition lookupProperty :: "TemplateContext \<Rightarrow> jsstring \<Rightarrow> jsstring option" where
  "lookupProperty ctx n =
     (if n = str ''pluginName'' then Some (pluginName ctx)
      else if n = str ''pluginDescription'' then Some (pluginDescription ctx)
      else if n = str ''pluginIcon'' then Some (pluginIcon ctx)
      else if n = str ''projectName'' then Some (projectName ctx)
      else if n = str ''projectSlug'' then Some (projectSlug ctx)
      else None)"

definition escapeChar :: "jschar \<Rightarrow> jsstring" where
  "escapeChar c =
     (if c = Latin1 CHR ''&'' then str ''&amp;''
      else if c = Latin1 CHR ''<'' then str ''&lt;''
      else if c = Latin1 CHR ''>'' then str ''&gt;''
      else if c = Latin1 (CHR 0x22) then str ''&quot;''
      else if c = Latin1 (CHR 0x27) then str ''&#x27;''
      else if c = Latin1 (CHR 0x60) then str ''&#x60;''
      else if c = Latin1 CHR ''='' then str ''&#x3D;''
      else [c])"

definition escapeExpression :: "jsstring \<Rightarrow> jsstring" where
  "escapeExpression s = concat (map escapeChar s)"

definition isIdChar :: "jschar \<Rightarrow> bool" where
  "isIdChar c =
     (let n = codeUnit c
      in (97 \<le> n \<and> n \<le> 122) \<or> (65 \<le> n \<and> n \<le> 90) \<or> (48 \<le> n \<and> n \<le> 57) \<or> n = 95)"

definition isDigit :: "jschar \<Rightarrow> bool" where
  "isDigit c = (let n = codeUnit c in 48 \<le> n \<and> n \<le> 57)"

definition reservedNames :: "jsstring list" where
  "reservedNames =
     [str ''true'', str ''false'', str ''null'', str ''undefined'', str ''else'', str ''this'', str ''as'',
      str ''if'', str ''unless'', str ''each'', str ''with'', str ''log'', str ''lookup'',
      str ''helperMissing'', str ''blockHelperMissing'',
      str ''constructor'', str ''hasOwnProperty'', str ''isPrototypeOf'', str ''propertyIsEnumerable'',
      str ''toLocaleString'', str ''toString'', str ''valueOf'', str ''__proto__'',
      str ''__defineGetter__'', str ''__defineSetter__'', str ''__lookupGetter__'', str ''__lookupSetter__'']"

definition plainName :: "jsstring \<Rightarrow> bool" where
  "plainName n = (n \<noteq> [] \<and> list_all isIdChar n \<and> \<not> isDigit (hd n) \<and> n \<notin> set reservedNames)"

text \<open>
  What follows the two opening braces of a mustache: white space, a plain name, white
  space, and two closing braces that no third one follows (the library reads three
  closing braces as the end of a triple mustache and rejects the template). The result
  is the name and the rest of the template.
\<close>

definition parseMustache :: "jsstring \<Rightarrow> (jsstring \<times> jsstring) option" where
  "parseMustache s =
     (let s1 = dropWhile isWhiteSpace s;
          n = takeWhile isIdChar s1;
          s2 = dropWhile isWhiteSpace (dropWhile isIdChar s1)
      in if plainName n \<and> take 2 s2 = str ''}}'' \<and> take 3 s2 \<noteq> str ''}}}''
         then Some (n, drop 2 s2) else None)"

function render :: "TemplateContext \<Rightarrow> jsstring \<Rightarrow> jsstring option" where
  "render ctx [] = Some []"
| "render ctx (c # cs) =
     (if c = Latin1 (CHR 0x00) then None
      else if c = Latin1 (CHR 0x5C) \<and> take 2 cs = str ''{{'' then None
      else if c = Latin1 CHR ''{'' \<and> take 1 cs = str ''{'' then
        (case parseMustache (drop 1 cs) of
           None \<Rightarrow> None
         | Some (n, rest) \<Rightarrow>
             (case render ctx rest of
                None \<Rightarrow> None
              | Some out \<Rightarrow>
                  Some ((case lookupProperty ctx n of None \<Rightarrow> [] | Some v \<Rightarrow> escapeExpression v) @ out)))
      else (case render ctx cs of None \<Rightarrow> None | Some out \<Rightarrow> Some (c # out)))"
  by pat_completeness auto
termination
proof (relation "measure (\<lambda>(ctx, s). length s)")
  show "wf (measure (\<lambda>(ctx, s). length s))" by simp
next
  fix ctx :: TemplateContext and c :: jschar and cs x2 x y
  assume p: "parseMustache (drop 1 cs) = Some x2" "(x, y) = x2"
  have "length (dropWhile isWhiteSpace (dropWhile isIdChar (dropWhile isWhiteSpace (drop 1 cs))))
        \<le> length (drop 1 cs)"
    by (meson length_dropWhile_le order_trans)
  with p have "length y \<le> length (drop 1 cs)"
    by (auto simp: parseMustache_def Let_def split: if_splits)
  then show "((ctx, y), (ctx, c # cs)) \<in> measure (\<lambda>(ctx, s). length s)" by simp
next
  fix ctx :: TemplateContext and c :: jschar and cs
  show "((ctx, cs), (ctx, c # cs)) \<in> measure (\<lambda>(ctx, s). length s)" by simp
qed

definition Handlebars_compile :: "jsstring \<Rightarrow> TemplateContext \<Rightarrow> error + jsstring" where
  "Handlebars_compile templateContent ctx =
     (case render ctx templateContent of Some out \<Rightarrow> Inr out | None \<Rightarrow> Inl OutsideFragment)"

section \<open>Tree Materializer\<close>

text \<open>
  The template tree under \<^verbatim>\<open>TEMPLATE_DIR\<close> is read-only input: a directory is the list
  of its entries as \<^verbatim>\<open>readdir(srcDir, { withFileTypes: true })\<close> returns them, a file
  carries its content: for a template the text that \<^verbatim>\<open>readFile(srcPath, "utf8")\<close>
  decodes, which \<^verbatim>\<open>writeFile\<close> encodes again, for any other file what is copied as it
  is. The tree is taken to lie apart from the destination, so that no write of the walk
  changes what the walk reads. \<^verbatim>\<open>copyEntries\<close> is the \<^verbatim>\<open>for\<close> loop of
  \<^verbatim>\<open>copyTemplateTree\<close>.
\<close>

datatype dirent =
    isFile: File (name: jsstring) (content: jsstring)
  | isDirectory: Directory (name: jsstring) (children: "dirent list")

definition endsWith :: "jsstring \<Rightarrow> jsstring \<Rightarrow> bool" where
  "endsWith s ending = (length ending \<le> length s \<and> drop (length s - length ending) s = ending)"

definition stripHbs :: "jsstring \<Rightarrow> jsstring" where
  "stripHbs n = (if endsWith n (str ''.hbs'') then take (length n - 4) n else n)"

definition destinationName :: "dirent \<Rightarrow> jsstring" where
  "destinationName entry = (if isFile entry then stripHbs (name entry) else name entry)"

type_synonym compiler = "jsstring \<Rightarrow> TemplateContext \<Rightarrow> error + jsstring"

function copyTemplateTree :: "compiler \<Rightarrow> dirent list \<Rightarrow> path \<Rightarrow> TemplateContext \<Rightarrow> world \<Rightarrow> (error + unit) \<times> world"
  and copyEntries :: "compiler \<Rightarrow> dirent list \<Rightarrow> path \<Rightarrow> TemplateContext \<Rightarrow> world \<Rightarrow> (error + unit) \<times> world"
where
  "copyTemplateTree compile entries destDir context w =
     (case mkdir destDir w of
        (Inl e, w1) \<Rightarrow> (Inl e, w1)
      | (Inr u, w1) \<Rightarrow> copyEntries compile entries destDir context w1)"
| "copyEntries compile [] destDir context w = (Inr (), w)"
| "copyEntries compile (Directory n cs # rest) destDir context w =
     (if n = str ''.DS_Store'' then copyEntries compile rest destDir context w
      else let destPath = path_join destDir (destinationName (Directory n cs)) in
        (case copyTemplateTree compile cs destPath context w of
           (Inl e, w1) \<Rightarrow> (Inl e, w1)
         | (Inr u, w1) \<Rightarrow> copyEntries compile rest destDir context w1))"
| "copyEntries compile (File n templateContent # rest) destDir context w =
     (if n = str ''.DS_Store'' then copyEntries compile rest destDir context w
      else let destPath = path_join destDir (destinationName (File n templateContent)) in
        if endsWith n (str ''.hbs'') then
          (case compile templateContent context of
             Inl e \<Rightarrow> (Inl e, w)
           | Inr output \<Rightarrow>
               (case writeFile destPath output w of
                  (Inl e, w1) \<Rightarrow> (Inl e, w1)
                | (Inr u, w1) \<Rightarrow> copyEntries compile rest destDir context w1))
        else
          (case writeFile destPath templateContent w of
             (Inl e, w1) \<Rightarrow> (Inl e, w1)
           | (Inr u, w1) \<Rightarrow> copyEntries compile rest destDir context w1))"
  by pat_completeness auto
termination
  by (relation "measure (\<lambda>x. case x of
        Inl (c, es, d, ctx, w) \<Rightarrow> 2 * size_list size es + 1
      | Inr (c, es, d, ctx, w) \<Rightarrow> 2 * size_list size es)") auto


section \<open>Flow Orchestrator\<close>

text \<open>
  \<^verbatim>\<open>createProjectFlow\<close> with its surroundings as parameters: the working directory, the
  template directory (\<^const>\<open>None\<close> when it does not exist) and the interactive
  \<^verbatim>\<open>prompts\<close> library as a function from the questions asked to the answers, or to
  \<^const>\<open>None\<close> when the user cancels. An optional value is an \<^typ>\<open>'a option\<close>;
  \<^verbatim>\<open>a ?? b\<close> is \<^verbatim>\<open>orElse\<close>. \<^verbatim>\<open>buildContext\<close> is the block of lines 118 to 134
  that computes the context. Console output is not modelled.
\<close>

record environment =
  cwd :: path
  TEMPLATE_DIR :: path
  templateTree :: "dirent list option"
  prompts :: "jsstring list \<Rightarrow> PromptAnswers option"

definition DEFAULT_DESCRIPTION :: jsstring where
  "DEFAULT_DESCRIPTION = str ''A new Snail plugin created with snail-init''"

definition DEFAULT_ICON :: jsstring where
  "DEFAULT_ICON = str ''null''"

fun orElse :: "'a option \<Rightarrow> 'a \<Rightarrow> 'a" where
  "orElse (Some v) d = v"
| "orElse None d = d"

fun orElseOpt :: "'a option \<Rightarrow> 'a option \<Rightarrow> 'a option" where
  "orElseOpt (Some v) d = Some v"
| "orElseOpt None d = d"

fun falsy :: "jsstring option \<Rightarrow> bool" where
  "falsy None = True"
| "falsy (Some s) = (s = [])"

definition buildPromptQuestions :: "jsstring option \<Rightarrow> CreateOptions \<Rightarrow> jsstring list" where
  "buildPromptQuestions projectNameArg options =
     (if falsy projectNameArg then [str ''projectName''] else []) @
     (if falsy (CreateOptions.pluginName options) then [str ''pluginName''] else []) @
     (if falsy (description options) then [str ''pluginDescription''] else []) @
     (if falsy (icon options) then [str ''pluginIcon''] else [])"

definition normalizeProjectName :: "jsstring option \<Rightarrow> error + jsstring" where
  "normalizeProjectName v =
     (case map_option trim v of
        None \<Rightarrow> Inl (Error (str ''A project name is required.''))
      | Some normalized \<Rightarrow>
          if normalized = [] then Inl (Error (str ''A project name is required.'')) else Inr normalized)"

definition buildContext :: "jsstring \<Rightarrow> CreateOptions \<Rightarrow> PromptAnswers \<Rightarrow> TemplateContext" where
  "buildContext projName cliOptions answers =
     (let pluginName = orElse (orElseOpt (CreateOptions.pluginName cliOptions) (PromptAnswers.pluginName answers))
                         (toDisplayName projName);
          pluginDescription = orElse (orElseOpt (description cliOptions) (PromptAnswers.pluginDescription answers))
                         DEFAULT_DESCRIPTION;
          pluginIcon = orElse (orElseOpt (icon cliOptions) (PromptAnswers.pluginIcon answers)) DEFAULT_ICON;
          pluginIcon = (if toLowerCase pluginIcon = str ''null'' then str ''null'' else pluginIcon)
      in \<lparr>TemplateContext.pluginName = pluginName,
          TemplateContext.pluginDescription = pluginDescription,
          TemplateContext.pluginIcon = pluginIcon,
          TemplateContext.projectName = projName,
          projectSlug = toSlug projName\<rparr>)"

definition noAnswers :: PromptAnswers where
  "noAnswers = \<lparr>PromptAnswers.projectName = None, PromptAnswers.pluginName = None,
                 PromptAnswers.pluginDescription = None, PromptAnswers.pluginIcon = None\<rparr>"

definition createProjectFlow ::
  "compiler \<Rightarrow> environment \<Rightarrow> jsstring option \<Rightarrow> CreateOptions \<Rightarrow> world \<Rightarrow> (error + unit) \<times> world" where
  "createProjectFlow compile env projectNameArg cliOptions w =
     (case templateTree env of
        None \<Rightarrow> (Inl (Error (str ''Template directory not found at '' @ pathString (TEMPLATE_DIR env))), w)
      | Some template \<Rightarrow>
          let questions = buildPromptQuestions projectNameArg cliOptions in
          (case (if length questions > 0 then prompts env questions else Some noAnswers) of
             None \<Rightarrow> (Inl (Error (str ''Operation cancelled.'')), w)
           | Some answers \<Rightarrow>
               (case normalizeProjectName (orElseOpt projectNameArg (PromptAnswers.projectName answers)) of
                  Inl e \<Rightarrow> (Inl e, w)
                | Inr projName \<Rightarrow>
                    let targetDir = path_resolve (cwd env) (orElse (directory cliOptions) projName) in
                    (case ensureDirectoryIsEmpty targetDir w of
                       (Inl e, w1) \<Rightarrow> (Inl e, w1)
                     | (Inr u, w1) \<Rightarrow>
                         copyTemplateTree compile template targetDir
                           (buildContext projName cliOptions answers) w1))))"


section \<open>Values the statements below use\<close>

text \<open>
  The spellings of \<^verbatim>\<open>null\<close> in upper and lower case letters, and a small environment
  with a template of two files for running the flow, on a project name given with a
  no-break space before it and a space after it.
\<close>

definition nullSpellings :: "jsstring list" where
  "nullSpellings =
     concat (map (\<lambda>n. concat (map (\<lambda>u. concat (map (\<lambda>l. map (\<lambda>m. [n, u, l, m])
        [Latin1 CHR ''l'', Latin1 CHR ''L'']) [Latin1 CHR ''l'', Latin1 CHR ''L''])) [Latin1 CHR ''u'', Latin1 CHR ''U'']))
        [Latin1 CHR ''n'', Latin1 CHR ''N''])"

definition demoEnv :: environment where
  "demoEnv = \<lparr>cwd = [str ''home'', str ''u''], TEMPLATE_DIR = [str ''opt'', str ''template''],
     templateTree = Some [File (str ''a.txt'') (str ''hello''), File (str ''b.txt.hbs'') (str ''Hi {{pluginName}}'')],
     prompts = (\<lambda>q. Some noAnswers)\<rparr>"

definition demoArg :: jsstring where
  "demoArg = Latin1 (CHR 0xA0) # str ''my_plugin ''"

definition demoOptions :: CreateOptions where
  "demoOptions = \<lparr>directory = None, CreateOptions.pluginName = None, description = None, icon = None\<rparr>"

text \<open>
  For the walk: the paths the recorded \<^verbatim>\<open>writeFile\<close> calls name, the names a directory
  listing can return, the destination names of the entries a directory's walk does not
  skip, and the source trees in which these are pairwise different in every directory.
  The relations after them speak of two states of the file system, before and after a
  stretch of the walk.
\<close>

fun writeTarget :: "syscall \<Rightarrow> path list" where
  "writeTarget (WriteFile p d) = [p]"
| "writeTarget (Mkdir p) = []"

definition writeTargets :: "syscall list \<Rightarrow> path list" where
  "writeTargets cs = concat (map writeTarget cs)"

definition validName :: "jsstring \<Rightarrow> bool" where
  "validName n = (n \<noteq> [] \<and> n \<noteq> str ''.'' \<and> n \<noteq> str ''..'' \<and> Latin1 CHR ''/'' \<notin> set n)"

definition destinationNames :: "dirent list \<Rightarrow> jsstring list" where
  "destinationNames es = map destinationName (filter (\<lambda>e. name e \<noteq> str ''.DS_Store'') es)"

fun wellNamed :: "dirent \<Rightarrow> bool" where
  "wellNamed (File n c) = validName n"
| "wellNamed (Directory n cs) =
     (validName n \<and> list_all wellNamed cs \<and> distinct (destinationNames cs))"

definition wellFormedDir :: "dirent list \<Rightarrow> bool" where
  "wellFormedDir es = (list_all wellNamed es \<and> distinct (destinationNames es))"

definition grows :: "world \<Rightarrow> world \<Rightarrow> bool" where
  "grows w w' =
     (prefix (calls w) (calls w') \<and>
      (\<forall>p. (lookupNode w p = Some IDir \<longrightarrow> lookupNode w' p = Some IDir) \<and>
           (isFileNode (lookupNode w p) \<longrightarrow> isFileNode (lookupNode w' p))))"

definition emptyBelow :: "world \<Rightarrow> path \<Rightarrow> bool" where
  "emptyBelow w D = (\<forall>p. strict_prefix D p \<longrightarrow> lookupNode w p = None)"

definition dirChain :: "world \<Rightarrow> path \<Rightarrow> bool" where
  "dirChain w D = (\<forall>q. prefix q D \<longrightarrow> lookupNode w q = Some IDir)"

definition clearTargets :: "world \<Rightarrow> path \<Rightarrow> dirent list \<Rightarrow> bool" where
  "clearTargets w D es =
     (\<forall>dn\<in>set (destinationNames es). validName dn \<longrightarrow>
        (\<forall>p. prefix (D @ [dn]) p \<longrightarrow> lookupNode w p = None))"

definition outsideTargets :: "path \<Rightarrow> dirent list \<Rightarrow> path \<Rightarrow> bool" where
  "outsideTargets D es p =
     (\<forall>dn\<in>set (destinationNames es). validName dn \<longrightarrow> \<not> prefix (D @ [dn]) p)"

definition freshWrites :: "world \<Rightarrow> syscall list \<Rightarrow> (error + unit) \<Rightarrow> world \<Rightarrow> bool" where
  "freshWrites w new r w2 =
     (distinct (writeTargets new) \<and>
      (\<forall>t\<in>set (writeTargets new). \<not> isFileNode (lookupNode w t)) \<and>
      (r = Inr () \<longrightarrow> (\<forall>t\<in>set (writeTargets new). isFileNode (lookupNode w2 t))))"

section \<open>Properties of the Name Normalizer\<close>

subsection \<open>Stripping at both ends\<close>

lemma dropWhileEnd_Cons:
  "dropWhileEnd p (a # s) = (if dropWhileEnd p s = [] \<and> p a then [] else a # dropWhileEnd p s)"
  by (auto simp: dropWhileEnd_def dropWhile_append dropWhile_eq_Nil_conv)

lemma dropWhileEnd_Nil [simp]: "dropWhileEnd p [] = []"
  by (simp add: dropWhileEnd_def)

lemma dropWhileEnd_eq_Nil: "dropWhileEnd p s = [] \<longleftrightarrow> list_all p s"
  by (simp add: dropWhileEnd_def dropWhile_eq_Nil_conv list_all_iff)

lemma dropWhile_all: "\<forall>x\<in>set s. p x \<Longrightarrow> dropWhile p s = []"
  by simp

lemma dropWhile_dropWhileEnd:
  "(\<And>c. q c \<Longrightarrow> p c) \<Longrightarrow> dropWhile p (dropWhileEnd q s) = dropWhileEnd q (dropWhile p s)"
proof (induction s)
  case Nil
  show ?case by simp
next
  case (Cons a s)
  have all: "list_all q s \<Longrightarrow> dropWhileEnd q (dropWhile p s) = []"
    using Cons.prems by (simp add: list_all_iff dropWhileEnd_eq_Nil dropWhile_all)
  show ?case
    using Cons by (auto simp: dropWhileEnd_Cons dropWhileEnd_eq_Nil all)
qed

lemma dropWhile_absorb:
  "(\<And>c. q c \<Longrightarrow> p c) \<Longrightarrow> dropWhile p (dropWhile q s) = dropWhile p s"
  by (induction s) auto

lemma dropWhileEnd_absorb:
  "(\<And>c. q c \<Longrightarrow> p c) \<Longrightarrow> dropWhileEnd p (dropWhileEnd q s) = dropWhileEnd p s"
  unfolding dropWhileEnd_def by (simp add: dropWhile_absorb)


lemma replaceRuns_dropWhile_hyphen:
  "dropWhile isHyphen (replaceRuns notLowerAlnum (str ''-'') t) = replaceRuns notLowerAlnum (str ''-'') (dropWhile notLowerAlnum t)"
proof (induction notLowerAlnum "str ''-''" t rule: replaceRuns.induct)
  case 1
  show ?case by simp
next
  case (2 c cs)
  show ?case
  proof (cases "notLowerAlnum c")
    case True
    then show ?thesis using 2 by (simp add: isHyphen_def str_def)
  next
    case False
    then have "c \<noteq> Latin1 CHR ''-''" by (auto simp: notLowerAlnum_def isLowerAlnum_def)
    with False show ?thesis by (simp add: isHyphen_def)
  qed
qed


lemma list_all_dropWhile: "list_all p (dropWhile p s) = list_all p s"
  by (induction s) auto

lemma replaceRuns_eq_Nil: "r \<noteq> [] \<Longrightarrow> replaceRuns p r t = [] \<longleftrightarrow> t = []"
  by (cases t) auto

lemma replaceRuns_dropWhileEnd_hyphen:
  "dropWhileEnd isHyphen (replaceRuns notLowerAlnum (str ''-'') t) =
   replaceRuns notLowerAlnum (str ''-'') (dropWhileEnd notLowerAlnum t)"
proof (induction notLowerAlnum "str ''-''" t rule: replaceRuns.induct)
  case 1
  show ?case by simp
next
  case (2 c cs)
  show ?case
  proof (cases "notLowerAlnum c")
    case True
    have comm: "dropWhile notLowerAlnum (dropWhileEnd notLowerAlnum cs) =
                dropWhileEnd notLowerAlnum (dropWhile notLowerAlnum cs)"
      by (rule dropWhile_dropWhileEnd)
    have nil: "dropWhileEnd notLowerAlnum (dropWhile notLowerAlnum cs) = [] \<longleftrightarrow>
               dropWhileEnd notLowerAlnum cs = []"
      by (simp add: dropWhileEnd_eq_Nil list_all_dropWhile)
    from True 2 show ?thesis
      by (simp add: dropWhileEnd_Cons isHyphen_def replaceRuns_eq_Nil comm nil str_def)
  next
    case False
    then have "c \<noteq> Latin1 CHR ''-''" by (auto simp: notLowerAlnum_def isLowerAlnum_def)
    with False 2 show ?thesis by (simp add: dropWhileEnd_Cons isHyphen_def)
  qed
qed

lemma trimHyphens_replaceRuns:
  "trimHyphens (replaceRuns notLowerAlnum (str ''-'') t) =
   replaceRuns notLowerAlnum (str ''-'') (dropWhileEnd notLowerAlnum (dropWhile notLowerAlnum t))"
  by (simp add: trimHyphens_def replaceRuns_dropWhile_hyphen replaceRuns_dropWhileEnd_hyphen)

lemma isWhiteSpace_lowerChar [simp]: "isWhiteSpace (lowerChar c) = isWhiteSpace c"
  by (cases c) (auto simp: isWhiteSpace_def Let_def)

lemma toLowerCase_trim: "toLowerCase (trim s) = trim (toLowerCase s)"
  by (simp add: toLowerCase_def trim_def dropWhileEnd_def dropWhile_map rev_map comp_def)

lemma isWhiteSpace_notLowerAlnum: "isWhiteSpace c \<Longrightarrow> notLowerAlnum c"
  by (auto simp: isWhiteSpace_def notLowerAlnum_def isLowerAlnum_def Let_def)

lemma strip_trim:
  "dropWhileEnd notLowerAlnum (dropWhile notLowerAlnum (trim t)) =
   dropWhileEnd notLowerAlnum (dropWhile notLowerAlnum t)"
proof -
  have "dropWhile notLowerAlnum (trim t) =
        dropWhileEnd isWhiteSpace (dropWhile notLowerAlnum (dropWhile isWhiteSpace t))"
    unfolding trim_def by (rule dropWhile_dropWhileEnd) (rule isWhiteSpace_notLowerAlnum)
  also have "\<dots> = dropWhileEnd isWhiteSpace (dropWhile notLowerAlnum t)"
    by (simp add: dropWhile_absorb isWhiteSpace_notLowerAlnum)
  finally show ?thesis
    by (simp add: dropWhileEnd_absorb isWhiteSpace_notLowerAlnum)
qed

lemma toSlug_normal_form:
  "toSlug v = (let slug = replaceRuns notLowerAlnum (str ''-'')
                    (dropWhileEnd notLowerAlnum (dropWhile notLowerAlnum (toLowerCase v)))
               in if slug = [] then str ''snail-plugin'' else slug)"
  by (simp add: toSlug_def trimHyphens_replaceRuns toLowerCase_trim strip_trim)


lemma hyphen_notLowerAlnum [simp]: "notLowerAlnum (Latin1 CHR ''-'')"
  by (simp add: notLowerAlnum_def isLowerAlnum_def)

lemma slug_replaceRuns:
  "dropWhileEnd notLowerAlnum s = s \<Longrightarrow> (need \<Longrightarrow> s \<noteq> [] \<and> isLowerAlnum (hd s)) \<Longrightarrow>
   slugFrom need (replaceRuns notLowerAlnum (str ''-'') s)"
proof (induction notLowerAlnum "str ''-''" s arbitrary: need rule: replaceRuns.induct)
  case 1
  then show ?case by auto
next
  case (2 c cs)
  show ?case
  proof (cases "notLowerAlnum c")
    case True
    let ?d = "dropWhile notLowerAlnum cs"
    have "dropWhile notLowerAlnum (dropWhileEnd notLowerAlnum (c # cs)) =
          dropWhileEnd notLowerAlnum (dropWhile notLowerAlnum (c # cs))"
      by (rule dropWhile_dropWhileEnd)
    with True 2(3) have keep: "dropWhileEnd notLowerAlnum ?d = ?d" by simp
    have "\<not> list_all notLowerAlnum (c # cs)"
      using 2(3) by (metis dropWhileEnd_eq_Nil list.distinct(1))
    with True have ne: "?d \<noteq> []" by (simp add: dropWhile_eq_Nil_conv list_all_iff)
    then have "isLowerAlnum (hd ?d)"
      using hd_dropWhile [of notLowerAlnum cs] by (simp add: notLowerAlnum_def)
    with ne have "slugFrom True (replaceRuns notLowerAlnum (str ''-'') ?d)"
      by (intro 2(1) [OF True keep]) simp
    moreover from True have "\<not> isLowerAlnum c" by (simp add: notLowerAlnum_def)
    moreover from this 2(4) have "\<not> need" by auto
    ultimately show ?thesis using True by (simp add: isLowerAlnum_def str_def)
  next
    case False
    then have keep: "dropWhileEnd notLowerAlnum cs = cs"
      using 2(3) by (simp add: dropWhileEnd_Cons)
    from False have c: "isLowerAlnum c" by (auto simp: notLowerAlnum_def)
    have "slugFrom False (replaceRuns notLowerAlnum (str ''-'') cs)"
      by (intro 2(2) [OF False keep]) simp
    with c False show ?thesis by simp
  qed
qed

lemma dropWhileEnd_idem: "dropWhileEnd p (dropWhileEnd p s) = dropWhileEnd p s"
  by (rule dropWhileEnd_absorb)

lemma hd_dropWhileEnd: "dropWhileEnd p s \<noteq> [] \<Longrightarrow> hd (dropWhileEnd p s) = hd s"
  by (cases s) (auto simp: dropWhileEnd_Cons split: if_splits)

lemma toSlug_shape: "matchesSlug (toSlug v)"
proof -
  let ?t = "dropWhile notLowerAlnum (toLowerCase v)"
  let ?u = "dropWhileEnd notLowerAlnum ?t"
  let ?slug = "replaceRuns notLowerAlnum (str ''-'') ?u"
  show ?thesis
  proof (cases "?u = []")
    case True
    then show ?thesis by (simp add: toSlug_normal_form matchesSlug_def isLowerAlnum_def str_def)
  next
    case False
    then have "?t \<noteq> []" by (metis dropWhileEnd_Nil)
    then have "\<not> notLowerAlnum (hd ?t)" by (rule hd_dropWhile)
    with False have "isLowerAlnum (hd ?u)" by (simp add: hd_dropWhileEnd notLowerAlnum_def)
    with False have "slugFrom True ?slug"
      by (intro slug_replaceRuns) (simp_all add: dropWhileEnd_idem)
    moreover from False have "?slug \<noteq> []" by (simp add: replaceRuns_eq_Nil str_def)
    ultimately show ?thesis by (simp add: toSlug_normal_form Let_def matchesSlug_def)
  qed
qed

lemma lowerChar_slug: "isLowerAlnum c \<or> c = Latin1 CHR ''-'' \<Longrightarrow> lowerChar c = c"
  by (cases c) (auto simp: isLowerAlnum_def Let_def)

lemma slug_fix:
  "slugFrom need s \<Longrightarrow>
     toLowerCase s = s \<and> replaceRuns notLowerAlnum (str ''-'') s = s \<and>
     dropWhileEnd notLowerAlnum s = s \<and> (need \<longrightarrow> s \<noteq> [] \<and> isLowerAlnum (hd s))"
proof (induction s arbitrary: need)
  case Nil
  then show ?case by (simp add: toLowerCase_def)
next
  case (Cons c cs)
  show ?case
  proof (cases "isLowerAlnum c")
    case True
    with Cons.prems have "slugFrom False cs" by simp
    from Cons.IH [OF this] True show ?thesis
      by (simp add: toLowerCase_def lowerChar_slug notLowerAlnum_def dropWhileEnd_Cons)
  next
    case False
    with Cons.prems have c: "c = Latin1 CHR ''-''" "\<not> need" and "slugFrom True cs" by auto
    from Cons.IH [OF this(3)] have f: "cs \<noteq> []" "isLowerAlnum (hd cs)" "toLowerCase cs = cs"
      "replaceRuns notLowerAlnum (str ''-'') cs = cs" "dropWhileEnd notLowerAlnum cs = cs" by auto
    from f(1,2) have "dropWhile notLowerAlnum cs = cs"
      by (cases cs) (auto simp: notLowerAlnum_def)
    with f c show ?thesis
      by (simp add: toLowerCase_def lowerChar_slug dropWhileEnd_Cons str_def)
  qed
qed

lemma toSlug_fixpoint: "matchesSlug s \<Longrightarrow> toSlug s = s"
proof -
  assume "matchesSlug s"
  then have "slugFrom True s" by (simp add: matchesSlug_def)
  from slug_fix [OF this] have f: "s \<noteq> []" "isLowerAlnum (hd s)" "toLowerCase s = s"
    "replaceRuns notLowerAlnum (str ''-'') s = s" "dropWhileEnd notLowerAlnum s = s" by auto
  from f(1,2) have "dropWhile notLowerAlnum s = s"
    by (cases s) (auto simp: notLowerAlnum_def)
  with f show ?thesis by (simp add: toSlug_normal_form)
qed



lemma replaceRuns_append_keep:
  "list_all (\<lambda>c. \<not> p c) a \<Longrightarrow> replaceRuns p r (a @ t) = a @ replaceRuns p r t"
  by (induction a) auto

lemma runs_replaceRuns:
  "concat (map (\<lambda>run. if list_all p run then r else run) (runs p t)) = replaceRuns p r t"
proof (induction p t rule: runs.induct)
  case (1 p)
  show ?case by simp
next
  case (2 p c cs)
  show ?case
  proof (cases "p c")
    case True
    then have eq: "(\<lambda>d. p d = p c) = p" by auto
    have "list_all p (takeWhile p cs)" by (auto simp: list_all_iff dest: set_takeWhileD)
    with True 2 show ?thesis by (simp add: eq)
  next
    case False
    then have eq: "(\<lambda>d. p d = p c) = (\<lambda>d. \<not> p d)" by auto
    have "list_all (\<lambda>d. \<not> p d) (takeWhile (\<lambda>d. \<not> p d) cs)"
      by (auto simp: list_all_iff dest: set_takeWhileD)
    then have "replaceRuns p r (takeWhile (\<lambda>d. \<not> p d) cs @ dropWhile (\<lambda>d. \<not> p d) cs) =
               takeWhile (\<lambda>d. \<not> p d) cs @ replaceRuns p r (dropWhile (\<lambda>d. \<not> p d) cs)"
      by (rule replaceRuns_append_keep)
    with False 2 show ?thesis by (simp add: eq)
  qed
qed

lemma toSlug_eq_spec: "toSlug s = spec_toSlug s"
  by (simp add: toSlug_normal_form spec_toSlug_def runs_replaceRuns
      replaceRuns_dropWhile_hyphen replaceRuns_dropWhileEnd_hyphen)



subsection \<open>The slug\<close>

text \<open>
  Claim C1. \<^const>\<open>toSlug\<close> is idempotent: for every string \<open>x\<close>, applying it to its own
  output returns that output unchanged. This includes the fallback slug
  \<^verbatim>\<open>snail-plugin\<close>, which is a fixed point.
\<close>

theorem toSlug_idempotent:
  "toSlug (toSlug x) = toSlug x \<and> toSlug (str ''snail-plugin'') = str ''snail-plugin''"
proof
  show "toSlug (toSlug x) = toSlug x"
    by (rule toSlug_fixpoint) (rule toSlug_shape)
  show "toSlug (str ''snail-plugin'') = str ''snail-plugin''"
    by code_simp
qed

theorem toSlug_idempotent_witness:
  "toSlug (toSlug (str ''  --Hello__World 42!! '')) = str ''hello-world-42''"
proof -
  have "toSlug (str ''  --Hello__World 42!! '') = str ''hello-world-42''"
    by code_simp
  with toSlug_idempotent [of "str ''  --Hello__World 42!! ''"] show ?thesis
    by simp
qed

text \<open>
  Claim C2. For every string \<open>s\<close>, \<^term>\<open>toSlug s\<close> is \<open>s\<close> lowercased, with every maximal
  run of characters outside \<^verbatim>\<open>[a-z0-9]\<close> replaced by one hyphen and the hyphens at both
  ends trimmed, or the fallback \<^verbatim>\<open>snail-plugin\<close> when nothing is left
  (\<^const>\<open>spec_toSlug\<close>; the \<^verbatim>\<open>trim()\<close> the code does first changes nothing, white space
  being outside the class). Every output matches \<^verbatim>\<open>^[a-z0-9]+(-[a-z0-9]+)*$\<close>, the
  fallback included, and \<^verbatim>\<open>toSlug("My Cool Plugin!!")\<close> is \<^verbatim>\<open>my-cool-plugin\<close>.
\<close>

theorem toSlug_spec:
  "toSlug s = spec_toSlug s \<and>
   (matchesSlug (toSlug s) \<or> toSlug s = str ''snail-plugin'') \<and>
   matchesSlug (str ''snail-plugin'') \<and>
   toSlug (str ''My Cool Plugin!!'') = str ''my-cool-plugin''"
proof (intro conjI)
  show "toSlug s = spec_toSlug s"
    by (rule toSlug_eq_spec)
  show "matchesSlug (toSlug s) \<or> toSlug s = str ''snail-plugin''"
    by (simp add: toSlug_shape)
  show "matchesSlug (str ''snail-plugin'')"
    by code_simp
  show "toSlug (str ''My Cool Plugin!!'') = str ''my-cool-plugin''"
    by code_simp
qed

theorem toSlug_spec_witness:
  "spec_toSlug (str ''  A_b  '') = str ''a-b'' \<and> toSlug (str ''  A_b  '') = str ''a-b'' \<and> matchesSlug (str ''a-b'')"
proof -
  have e: "toSlug (str ''  A_b  '') = str ''a-b''"
    by code_simp
  note t = toSlug_spec [of "str ''  A_b  ''"]
  from t have "matchesSlug (toSlug (str ''  A_b  '')) \<or> toSlug (str ''  A_b  '') = str ''snail-plugin''"
    by blast
  then have m: "matchesSlug (str ''a-b'')"
    unfolding e by (simp add: str_def)
  from t have "toSlug (str ''  A_b  '') = spec_toSlug (str ''  A_b  '')"
    by blast
  then have "spec_toSlug (str ''  A_b  '') = str ''a-b''"
    unfolding e by (rule sym)
  with e m show ?thesis
    by simp
qed

subsection \<open>The display name\<close>



















lemma isWhiteSpace_space [simp]: "isWhiteSpace (Latin1 CHR '' '')"
  by (simp add: isWhiteSpace_def)







section \<open>Properties of the Destination Guard and the file name transform\<close>
lemma existsSync_child:
  "existsSync w (dir @ [n]) \<longleftrightarrow> dir @ [n] \<in> set (map fst (nodes w))"
  by (simp add: existsSync_def lookupNode_def map_of_eq_None_iff)

lemma readdir_dir:
  "lookupNode w dir = Some IDir \<Longrightarrow>
   \<exists>names. readdir w dir = Inr names \<and> (names = [] \<longleftrightarrow> \<not> (\<exists>n. existsSync w (dir @ [n])))"
proof -
  assume d: "lookupNode w dir = Some IDir"
  let ?below = "filter (\<lambda>q. q \<noteq> [] \<and> butlast q = dir) (map fst (nodes w))"
  have "?below = [] \<longleftrightarrow> \<not> (\<exists>n. dir @ [n] \<in> set (map fst (nodes w)))"
  proof
    assume e: "?below = []"
    show "\<not> (\<exists>n. dir @ [n] \<in> set (map fst (nodes w)))"
    proof
      assume "\<exists>n. dir @ [n] \<in> set (map fst (nodes w))"
      then obtain n where "dir @ [n] \<in> set (map fst (nodes w))" ..
      then have "dir @ [n] \<in> set ?below" by simp
      with e show False by simp
    qed
  next
    assume n: "\<not> (\<exists>n. dir @ [n] \<in> set (map fst (nodes w)))"
    have "\<And>q. q \<in> set (map fst (nodes w)) \<Longrightarrow> \<not> (q \<noteq> [] \<and> butlast q = dir)"
    proof
      fix q assume q: "q \<in> set (map fst (nodes w))" and "q \<noteq> [] \<and> butlast q = dir"
      then have "q = dir @ [last q]" by (metis append_butlast_last_id)
      with q n show False by metis
    qed
    then show "?below = []" by (auto simp: filter_empty_conv)
  qed
  with d show ?thesis
    by (simp add: readdir_def existsSync_child)
qed

text \<open>
  Claim C4. The guard (\<^verbatim>\<open>ensureWritable\<close> in the specification,
  \<^const>\<open>ensureDirectoryIsEmpty\<close> in the code) fails with a \<^const>\<open>DestinationError\<close>
  exactly when the path exists and is not a directory, or is a directory with at least
  one entry, whatever the entry's name; it succeeds exactly when the path does not exist
  or is an empty directory; and in every case it leaves the file system as it was, so it
  never creates the directory.
\<close>

theorem ensureDirectoryIsEmpty_spec:
  "((\<exists>e. fst (ensureDirectoryIsEmpty dir w) = Inl e \<and> DestinationError dir e) \<longleftrightarrow>
      (\<exists>d. lookupNode w dir = Some (IFile d)) \<or>
      (lookupNode w dir = Some IDir \<and> (\<exists>n. existsSync w (dir @ [n])))) \<and>
   (fst (ensureDirectoryIsEmpty dir w) = Inr () \<longleftrightarrow>
      lookupNode w dir = None \<or>
      (lookupNode w dir = Some IDir \<and> \<not> (\<exists>n. existsSync w (dir @ [n])))) \<and>
   snd (ensureDirectoryIsEmpty dir w) = w"
proof (cases "lookupNode w dir")
  case None
  then show ?thesis
    by (simp add: ensureDirectoryIsEmpty_def existsSync_def)
next
  case (Some node)
  show ?thesis
  proof (cases node)
    case (IFile d)
    with Some show ?thesis
      by (simp add: ensureDirectoryIsEmpty_def existsSync_def stat_def DestinationError_def)
  next
    case IDir
    with Some have d: "lookupNode w dir = Some IDir" by simp
    from readdir_dir [OF d] obtain names where r: "readdir w dir = Inr names"
      and e: "names = [] \<longleftrightarrow> \<not> (\<exists>n. existsSync w (dir @ [n]))" by blast
    from d r e show ?thesis
      by (auto simp: ensureDirectoryIsEmpty_def existsSync_def stat_def DestinationError_def)
  qed
qed


theorem ensureDirectoryIsEmpty_spec_witness:
  "fst (ensureDirectoryIsEmpty [str ''p'']
          \<lparr>nodes = [([str ''p''], IDir), ([str ''p'', str ''.DS_Store''], IFile [])], calls = []\<rparr>) \<noteq> Inr () \<and>
   snd (ensureDirectoryIsEmpty [str ''p'']
          \<lparr>nodes = [([str ''p''], IDir), ([str ''p'', str ''.DS_Store''], IFile [])], calls = []\<rparr>) =
     \<lparr>nodes = [([str ''p''], IDir), ([str ''p'', str ''.DS_Store''], IFile [])], calls = []\<rparr>"
proof -
  let ?w = "\<lparr>nodes = [([str ''p''], IDir), ([str ''p'', str ''.DS_Store''], IFile [])], calls = []\<rparr>"
  have "existsSync ?w ([str ''p''] @ [str ''.DS_Store''])"
    by (simp add: existsSync_def lookupNode_def)
  then have "\<exists>n. existsSync ?w ([str ''p''] @ [n])" ..
  moreover have "lookupNode ?w [str ''p''] = Some IDir"
    by (simp add: lookupNode_def)
  ultimately show ?thesis
    using ensureDirectoryIsEmpty_spec [of "[str ''p'']" ?w] by simp
qed

lemma split_no_sep: "sep \<notin> set s \<Longrightarrow> split sep s = [s]"
  by (induction s) auto

lemma path_join_plain:
  "Latin1 CHR ''/'' \<notin> set n \<Longrightarrow> n \<noteq> [] \<Longrightarrow> n \<noteq> str ''.'' \<Longrightarrow> n \<noteq> str ''..'' \<Longrightarrow> path_join dir n = dir @ [n]"
  by (simp add: path_join_def split_no_sep pathStep_def)

lemma stripHbs_append [simp]: "stripHbs (n @ str ''.hbs'') = n"
  by (simp add: stripHbs_def endsWith_def str_def)

lemmas name_eval =
  str_def destinationName_def stripHbs_def endsWith_def path_join_def pathStep_def

lemma unit_result:
  "(case r of (Inl e, w1) \<Rightarrow> (Inl e, w1)
            | (Inr u, w1) \<Rightarrow> copyEntries compile [] destDir context w1) = r"
  by (cases r) (auto split: sum.splits)

text \<open>
  Claim C10. The file name transform removes one trailing \<^verbatim>\<open>.hbs\<close>, and only from
  the names of files: a file \<^verbatim>\<open>x.hbs.hbs\<close> is rendered and written under the name
  \<^verbatim>\<open>x.hbs\<close>, a directory \<^verbatim>\<open>d.hbs\<close> keeps its name, and a file named \<^verbatim>\<open>.hbs\<close>
  gets the empty destination name, so that its rendered text is written to the path of
  the destination directory itself.
\<close>

theorem destinationName_spec:
  "destinationName (File (n @ str ''.hbs'') c) = n \<and>
   (\<not> endsWith n (str ''.hbs'') \<longrightarrow> destinationName (File n c) = n) \<and>
   destinationName (Directory n cs) = n \<and>
   destinationName (File (str ''x.hbs.hbs'') c) = str ''x.hbs'' \<and>
   destinationName (Directory (str ''d.hbs'') cs) = str ''d.hbs'' \<and>
   destinationName (File (str ''.hbs'') c) = [] \<and>
   path_join destDir (destinationName (File (str ''.hbs'') c)) = destDir \<and>
   copyEntries compile [File (str ''x.hbs.hbs'') c] destDir context w =
     (case compile c context of
        Inl e \<Rightarrow> (Inl e, w)
      | Inr output \<Rightarrow> writeFile (destDir @ [str ''x.hbs'']) output w) \<and>
   copyEntries compile [Directory (str ''d.hbs'') cs] destDir context w =
     copyTemplateTree compile cs (destDir @ [str ''d.hbs'']) context w \<and>
   copyEntries compile [File (str ''.hbs'') c] destDir context w =
     (case compile c context of
        Inl e \<Rightarrow> (Inl e, w)
      | Inr output \<Rightarrow> writeFile destDir output w)"
proof (intro conjI)
  show "destinationName (File (n @ str ''.hbs'') c) = n"
    by (simp add: destinationName_def)
  show "\<not> endsWith n (str ''.hbs'') \<longrightarrow> destinationName (File n c) = n"
    by (simp add: destinationName_def stripHbs_def)
  show "destinationName (Directory n cs) = n"
    by (simp add: destinationName_def)
  show x: "destinationName (File (str ''x.hbs.hbs'') c) = str ''x.hbs''"
    by (simp add: destinationName_def stripHbs_def endsWith_def str_def)
  show d: "destinationName (Directory (str ''d.hbs'') cs) = str ''d.hbs''"
    by (simp add: destinationName_def)
  show h: "destinationName (File (str ''.hbs'') c) = []"
    by (simp add: destinationName_def stripHbs_def endsWith_def str_def)
  show j: "path_join destDir (destinationName (File (str ''.hbs'') c)) = destDir"
    by (simp add: h path_join_def pathStep_def)
  show "copyEntries compile [File (str ''x.hbs.hbs'') c] destDir context w =
     (case compile c context of
        Inl e \<Rightarrow> (Inl e, w)
      | Inr output \<Rightarrow> writeFile (destDir @ [str ''x.hbs'']) output w)"
    by (simp add: name_eval unit_result split: sum.splits)
  show "copyEntries compile [Directory (str ''d.hbs'') cs] destDir context w =
     copyTemplateTree compile cs (destDir @ [str ''d.hbs'']) context w"
    by (simp add: name_eval unit_result del: copyTemplateTree.simps)
  show "copyEntries compile [File (str ''.hbs'') c] destDir context w =
     (case compile c context of
        Inl e \<Rightarrow> (Inl e, w)
      | Inr output \<Rightarrow> writeFile destDir output w)"
    by (simp add: name_eval unit_result split: sum.splits)
qed


theorem destinationName_spec_witness:
  "destinationName (File (str ''README.md'') (str ''x'')) = str ''README.md'' \<and>
   destinationName (File (str ''package.json.hbs'') (str ''x'')) = str ''package.json''"
proof -
  have "\<not> endsWith (str ''README.md'') (str ''.hbs'')"
    by (simp add: endsWith_def str_def)
  with destinationName_spec [of "str ''README.md''" "str ''x''"]
    destinationName_spec [of "str ''package.json''" "str ''x''"]
  show ?thesis by (simp add: str_def)
qed

section \<open>Properties of the Template Renderer and the end-to-end example\<close>
lemmas fs_eval =
  str_def mkdir_def writeFile_def properAncestors_def addDir_def lookupNode_def
  destinationName_def stripHbs_def endsWith_def path_join_def pathStep_def Let_def upt_rec

lemmas hb_eval =
  Handlebars_compile_def parseMustache_def plainName_def isIdChar_def isDigit_def
  isWhiteSpace_def reservedNames_def lookupProperty_def escapeExpression_def escapeChar_def

text \<open>
  Claim C6, as stated, with the suffix \<^verbatim>\<open>.tmpl\<close>: the code's template marker is
  \<^verbatim>\<open>.hbs\<close>, so the two \<^verbatim>\<open>.tmpl\<close> files are copied as they are, name and content,
  and no \<^verbatim>\<open>b.txt\<close> is produced.
\<close>

theorem materialize_tmpl_counterexample:
  "copyTemplateTree Handlebars_compile
     [File (str ''a.txt'') (str ''hello''), File (str ''b.txt.tmpl'') (str ''Hi {{projectName}}''),
      Directory (str ''sub'') [File (str ''c.txt.tmpl'') (str ''{{pluginIcon}}'')]]
     [str ''out'']
     \<lparr>pluginName = str ''Demo'', pluginDescription = str ''A demo'', pluginIcon = str ''null'',
      projectName = str ''demo'', projectSlug = str ''demo''\<rparr>
     \<lparr>nodes = [], calls = []\<rparr> =
   (Inr (),
    \<lparr>nodes = [([str ''out''], IDir), ([str ''out'', str ''a.txt''], IFile (str ''hello'')),
              ([str ''out'', str ''b.txt.tmpl''], IFile (str ''Hi {{projectName}}'')), ([str ''out'', str ''sub''], IDir),
              ([str ''out'', str ''sub'', str ''c.txt.tmpl''], IFile (str ''{{pluginIcon}}''))],
     calls = [Mkdir [str ''out''], WriteFile [str ''out'', str ''a.txt''] (str ''hello''),
              WriteFile [str ''out'', str ''b.txt.tmpl''] (str ''Hi {{projectName}}''), Mkdir [str ''out'', str ''sub''],
              WriteFile [str ''out'', str ''sub'', str ''c.txt.tmpl''] (str ''{{pluginIcon}}'')]\<rparr>)"
  by (simp add: fs_eval)

text \<open>
  Claim C6, amended: with the marker suffix the code uses. Materializing the source tree
  \<^verbatim>\<open>{"a.txt": "hello", "b.txt.hbs": "Hi {{projectName}}", "sub/c.txt.hbs": "{{pluginIcon}}"}\<close>
  with a context whose project name is \<^verbatim>\<open>demo\<close> and whose icon is \<^verbatim>\<open>null\<close>, whatever
  its other fields, into a destination that does not exist yet produces exactly
  \<^verbatim>\<open>{"a.txt": "hello", "b.txt": "Hi demo", "sub/c.txt": "null"}\<close>: the suffix is
  stripped from both rendered files and \<^verbatim>\<open>a.txt\<close> has the content of its source.
\<close>

theorem materialize_example:
  "copyTemplateTree Handlebars_compile
     [File (str ''a.txt'') (str ''hello''), File (str ''b.txt.hbs'') (str ''Hi {{projectName}}''),
      Directory (str ''sub'') [File (str ''c.txt.hbs'') (str ''{{pluginIcon}}'')]]
     [str ''out'']
     \<lparr>pluginName = pn, pluginDescription = pd, pluginIcon = str ''null'',
      projectName = str ''demo'', projectSlug = ps\<rparr>
     \<lparr>nodes = [], calls = []\<rparr> =
   (Inr (),
    \<lparr>nodes = [([str ''out''], IDir), ([str ''out'', str ''a.txt''], IFile (str ''hello'')),
              ([str ''out'', str ''b.txt''], IFile (str ''Hi demo'')), ([str ''out'', str ''sub''], IDir),
              ([str ''out'', str ''sub'', str ''c.txt''], IFile (str ''null''))],
     calls = [Mkdir [str ''out''], WriteFile [str ''out'', str ''a.txt''] (str ''hello''),
              WriteFile [str ''out'', str ''b.txt''] (str ''Hi demo''), Mkdir [str ''out'', str ''sub''],
              WriteFile [str ''out'', str ''sub'', str ''c.txt''] (str ''null'')]\<rparr>)"
  by (simp add: fs_eval hb_eval)

theorem materialize_example_witness:
  "lookupNode
     (snd (copyTemplateTree Handlebars_compile
       [File (str ''a.txt'') (str ''hello''), File (str ''b.txt.hbs'') (str ''Hi {{projectName}}''),
        Directory (str ''sub'') [File (str ''c.txt.hbs'') (str ''{{pluginIcon}}'')]]
       [str ''out'']
       \<lparr>pluginName = str ''Demo'', pluginDescription = str ''A demo'', pluginIcon = str ''null'',
        projectName = str ''demo'', projectSlug = str ''demo''\<rparr>
       \<lparr>nodes = [], calls = []\<rparr>))
     [str ''out'', str ''sub'', str ''c.txt''] = Some (IFile (str ''null''))"
  unfolding materialize_example [of "str ''Demo''" "str ''A demo''" "str ''demo''"]
  by (simp add: lookupNode_def)


















section \<open>Properties of the Flow Orchestrator\<close>

lemma lowerChar_inv:
  assumes "lowerChar (Latin1 x) = Latin1 c"
  shows "x = c \<or> (of_char x :: nat) + 32 = of_char c"
proof (cases "(65 \<le> (of_char x :: nat) \<and> (of_char x :: nat) \<le> 90) \<or>
              (192 \<le> (of_char x :: nat) \<and> (of_char x :: nat) \<le> 222 \<and> (of_char x :: nat) \<noteq> 215)")
  case True
  with assms have "char_of ((of_char x :: nat) + 32) = c"
    by (simp add: Let_def)
  then have "(of_char (char_of ((of_char x :: nat) + 32)) :: nat) = of_char c"
    by simp
  then have "((of_char x :: nat) + 32) mod 256 = of_char c"
    by (simp only: of_char_of)
  with True show ?thesis by auto
next
  case False
  with assms show ?thesis by (auto simp: Let_def)
qed

lemma char_from_code: "(of_char x :: nat) = k \<Longrightarrow> x = char_of k"
  by auto

lemma lowerChar_letter:
  assumes c: "(of_char c :: nat) = k + 32" and k: "65 \<le> k" "k \<le> 90"
  shows "lowerChar x = Latin1 c \<longleftrightarrow> x = Latin1 c \<or> x = Latin1 (char_of k)"
proof (cases x)
  case (Latin1 y)
  show ?thesis
  proof
    assume "lowerChar x = Latin1 c"
    with Latin1 have "lowerChar (Latin1 y) = Latin1 c" by simp
    from lowerChar_inv [OF this] c have "y = c \<or> y = char_of k"
      by (auto dest: char_from_code)
    with Latin1 show "x = Latin1 c \<or> x = Latin1 (char_of k)" by simp
  next
    assume "x = Latin1 c \<or> x = Latin1 (char_of k)"
    then show "lowerChar x = Latin1 c"
    proof
      assume "x = Latin1 c"
      with c k show ?thesis by (simp add: Let_def)
    next
      assume x: "x = Latin1 (char_of k)"
      from k have "(of_char (char_of k) :: nat) = k" by (simp add: of_char_of)
      with x k have "lowerChar x = Latin1 (char_of (k + 32))" by (simp add: Let_def)
      also from c have "char_of (k + 32) = c" by (metis char_of_char)
      finally show ?thesis .
    qed
  qed
next
  case CapitalYDiaeresis
  from c k have "c \<noteq> CHR 0xFF" by auto
  with CapitalYDiaeresis show ?thesis by auto
next
  case GreekCapitalMu
  then show ?thesis by simp
next
  case GreekSmallMu
  then show ?thesis by simp
qed

lemma lowerChar_n: "lowerChar x = Latin1 CHR ''n'' \<longleftrightarrow> x = Latin1 CHR ''n'' \<or> x = Latin1 CHR ''N''"
proof -
  have "char_of (78::nat) = CHR ''N''" by code_simp
  with lowerChar_letter [of "CHR ''n''" 78 x] show ?thesis by simp
qed

lemma lowerChar_u: "lowerChar x = Latin1 CHR ''u'' \<longleftrightarrow> x = Latin1 CHR ''u'' \<or> x = Latin1 CHR ''U''"
proof -
  have "char_of (85::nat) = CHR ''U''" by code_simp
  with lowerChar_letter [of "CHR ''u''" 85 x] show ?thesis by simp
qed

lemma lowerChar_l: "lowerChar x = Latin1 CHR ''l'' \<longleftrightarrow> x = Latin1 CHR ''l'' \<or> x = Latin1 CHR ''L''"
proof -
  have "char_of (76::nat) = CHR ''L''" by code_simp
  with lowerChar_letter [of "CHR ''l''" 76 x] show ?thesis by simp
qed

lemma toLowerCase_null: "toLowerCase s = str ''null'' \<longleftrightarrow> s \<in> set nullSpellings"
proof -
  have "toLowerCase s = str ''null'' \<longleftrightarrow>
        (\<exists>a b c d. s = [a, b, c, d] \<and> lowerChar a = Latin1 CHR ''n'' \<and> lowerChar b = Latin1 CHR ''u'' \<and>
            lowerChar c = Latin1 CHR ''l'' \<and> lowerChar d = Latin1 CHR ''l'')"
    by (auto simp: toLowerCase_def map_eq_Cons_conv str_def)
  also have "\<dots> \<longleftrightarrow> s \<in> set nullSpellings"
    unfolding lowerChar_n lowerChar_u lowerChar_l nullSpellings_def by auto
  finally show ?thesis .
qed

text \<open>
  Claim C9. The icon the context carries is the supplied one (the command line option,
  else the prompt's answer, else the default \<^verbatim>\<open>null\<close>), except that every spelling of
  \<^verbatim>\<open>null\<close> in upper and lower case letters becomes the lower case \<^verbatim>\<open>null\<close>; every
  other value is carried unchanged.
\<close>

theorem buildContext_icon:
  "pluginIcon (buildContext pn opts ans) =
     (let supplied = (case icon opts of
                        Some i \<Rightarrow> i
                      | None \<Rightarrow> (case PromptAnswers.pluginIcon ans of Some i \<Rightarrow> i | None \<Rightarrow> str ''null''))
      in if supplied \<in> set nullSpellings then str ''null'' else supplied) \<and>
   str ''NULL'' \<in> set nullSpellings \<and> str ''Null'' \<in> set nullSpellings"
proof (intro conjI)
  show "pluginIcon (buildContext pn opts ans) =
     (let supplied = (case icon opts of
                        Some i \<Rightarrow> i
                      | None \<Rightarrow> (case PromptAnswers.pluginIcon ans of Some i \<Rightarrow> i | None \<Rightarrow> str ''null''))
      in if supplied \<in> set nullSpellings then str ''null'' else supplied)"
    by (simp add: buildContext_def DEFAULT_ICON_def toLowerCase_null Let_def
        split: option.splits)
  show "str ''NULL'' \<in> set nullSpellings" "str ''Null'' \<in> set nullSpellings"
    by (simp_all add: nullSpellings_def str_def)
qed

theorem buildContext_icon_witness:
  "pluginIcon (buildContext (str ''demo'')
      \<lparr>directory = None, CreateOptions.pluginName = None, description = None, icon = Some (str ''NuLL'')\<rparr>
      noAnswers) = str ''null'' \<and>
   pluginIcon (buildContext (str ''demo'')
      \<lparr>directory = None, CreateOptions.pluginName = None, description = None, icon = None\<rparr>
      (noAnswers\<lparr>PromptAnswers.pluginIcon := Some (str ''https://x.test/Null.png'')\<rparr>)) =
     str ''https://x.test/Null.png''"
proof -
  have "str ''NuLL'' \<in> set nullSpellings" "str ''https://x.test/Null.png'' \<notin> set nullSpellings"
    by (simp_all add: nullSpellings_def str_def)
  then show ?thesis
    using buildContext_icon [of "str ''demo''"
        "\<lparr>directory = None, CreateOptions.pluginName = None, description = None, icon = Some (str ''NuLL'')\<rparr>"
        noAnswers]
      buildContext_icon [of "str ''demo''"
        "\<lparr>directory = None, CreateOptions.pluginName = None, description = None, icon = None\<rparr>"
        "noAnswers\<lparr>PromptAnswers.pluginIcon := Some (str ''https://x.test/Null.png'')\<rparr>"]
    by (simp add: noAnswers_def)
qed

text \<open>
  Claim C7. When the flow reaches a destination that is a directory with an entry in it,
  as it is after a first run has populated it, the flow fails with the
  \<^const>\<open>DestinationError\<close> of a directory that is not empty and the file system,
  together with the record of \<^verbatim>\<open>mkdir\<close> and \<^verbatim>\<open>writeFile\<close> calls, is what it was:
  the check comes before any file or directory is created.
\<close>

theorem createProjectFlow_nonempty_destination:
  assumes "templateTree env = Some entries"
    and "(if length (buildPromptQuestions arg opts) > 0
          then prompts env (buildPromptQuestions arg opts) else Some noAnswers) = Some answers"
    and "normalizeProjectName (orElseOpt arg (PromptAnswers.projectName answers)) = Inr projName"
    and "targetDir = path_resolve (cwd env) (orElse (directory opts) projName)"
    and "lookupNode w targetDir = Some IDir"
    and "existsSync w (targetDir @ [n])"
  shows "createProjectFlow compile env arg opts w = (Inl (Error (notEmptyMessage targetDir)), w) \<and>
         DestinationError targetDir (Error (notEmptyMessage targetDir)) \<and>
         calls (snd (createProjectFlow compile env arg opts w)) = calls w"
proof -
  from readdir_dir [OF assms(5)] assms(6) obtain names
    where "readdir w targetDir = Inr names" "names \<noteq> []" by blast
  with assms(5) have g: "ensureDirectoryIsEmpty targetDir w = (Inl (Error (notEmptyMessage targetDir)), w)"
    by (simp add: ensureDirectoryIsEmpty_def existsSync_def stat_def)
  have "createProjectFlow compile env arg opts w = (Inl (Error (notEmptyMessage targetDir)), w)"
    unfolding createProjectFlow_def Let_def assms(1) option.case assms(2) assms(3) sum.case
      assms(4) [symmetric] g
    by simp
  then show ?thesis
    by (simp add: DestinationError_def)
qed

lemma first_run:
  "createProjectFlow Handlebars_compile demoEnv (Some demoArg) demoOptions \<lparr>nodes = [], calls = []\<rparr> =
   (Inr (),
    \<lparr>nodes = [([str ''home''], IDir), ([str ''home'', str ''u''], IDir), ([str ''home'', str ''u'', str ''my_plugin''], IDir),
              ([str ''home'', str ''u'', str ''my_plugin'', str ''a.txt''], IFile (str ''hello'')),
              ([str ''home'', str ''u'', str ''my_plugin'', str ''b.txt''], IFile (str ''Hi My Plugin''))],
     calls = [Mkdir [str ''home'', str ''u'', str ''my_plugin''],
              WriteFile [str ''home'', str ''u'', str ''my_plugin'', str ''a.txt''] (str ''hello''),
              WriteFile [str ''home'', str ''u'', str ''my_plugin'', str ''b.txt''] (str ''Hi My Plugin'')]\<rparr>)"
  by code_simp

theorem createProjectFlow_nonempty_destination_witness:
  "createProjectFlow Handlebars_compile demoEnv (Some demoArg) demoOptions
     (snd (createProjectFlow Handlebars_compile demoEnv (Some demoArg) demoOptions
            \<lparr>nodes = [], calls = []\<rparr>)) =
   (Inl (Error (notEmptyMessage [str ''home'', str ''u'', str ''my_plugin''])),
    snd (createProjectFlow Handlebars_compile demoEnv (Some demoArg) demoOptions
            \<lparr>nodes = [], calls = []\<rparr>))"
proof -
  let ?w1 = "\<lparr>nodes = [([str ''home''], IDir), ([str ''home'', str ''u''], IDir), ([str ''home'', str ''u'', str ''my_plugin''], IDir),
              ([str ''home'', str ''u'', str ''my_plugin'', str ''a.txt''], IFile (str ''hello'')),
              ([str ''home'', str ''u'', str ''my_plugin'', str ''b.txt''], IFile (str ''Hi My Plugin''))],
     calls = [Mkdir [str ''home'', str ''u'', str ''my_plugin''],
              WriteFile [str ''home'', str ''u'', str ''my_plugin'', str ''a.txt''] (str ''hello''),
              WriteFile [str ''home'', str ''u'', str ''my_plugin'', str ''b.txt''] (str ''Hi My Plugin'')]\<rparr>"
  have a1: "templateTree demoEnv = Some [File (str ''a.txt'') (str ''hello''), File (str ''b.txt.hbs'') (str ''Hi {{pluginName}}'')]"
    by (simp add: demoEnv_def)
  have a2: "(if length (buildPromptQuestions (Some demoArg) demoOptions) > 0
          then prompts demoEnv (buildPromptQuestions (Some demoArg) demoOptions)
          else Some noAnswers) = Some noAnswers"
    by (simp add: demoEnv_def)
  have a3: "normalizeProjectName (orElseOpt (Some demoArg) (PromptAnswers.projectName noAnswers)) =
            Inr (str ''my_plugin'')"
    by code_simp
  have a4: "[str ''home'', str ''u'', str ''my_plugin''] =
            path_resolve (cwd demoEnv) (orElse (directory demoOptions) (str ''my_plugin''))"
    by code_simp
  have a5: "lookupNode ?w1 [str ''home'', str ''u'', str ''my_plugin''] = Some IDir"
    by (simp add: lookupNode_def)
  have a6: "existsSync ?w1 ([str ''home'', str ''u'', str ''my_plugin''] @ [str ''a.txt''])"
    by (simp add: existsSync_def lookupNode_def)
  from createProjectFlow_nonempty_destination [OF a1 a2 a3 a4 a5 a6, of Handlebars_compile]
  show ?thesis
    unfolding first_run by simp
qed

section \<open>Properties of the Tree Materializer\<close>

lemma mkdir_calls: "mkdir p w = (r, w') \<Longrightarrow> calls w' = calls w @ [Mkdir p]"
  by (auto simp: mkdir_def Let_def split: if_splits)

lemma mkdir_fails: "mkdir p w = (Inl e, w') \<Longrightarrow> nodes w' = nodes w"
  by (auto simp: mkdir_def Let_def split: if_splits)

lemma map_of_addDir:
  "map_of (addDir ns q) x = (if x = q \<and> q \<noteq> [] \<and> map_of ns q = None then Some IDir else map_of ns x)"
  by (auto simp: addDir_def map_of_append map_add_def split: option.splits)

lemma map_of_foldl_addDir:
  "map_of (foldl addDir ns qs) x =
     (if x \<in> set qs \<and> x \<noteq> [] \<and> map_of ns x = None then Some IDir else map_of ns x)"
proof (induction qs arbitrary: ns)
  case Nil
  show ?case by simp
next
  case (Cons q qs)
  show ?case
    by (auto simp: Cons.IH map_of_addDir)
qed

lemma set_prefixes_of:
  "x \<noteq> [] \<Longrightarrow> x \<in> set (properAncestors p @ [p]) \<longleftrightarrow> prefix x p"
proof
  assume "x \<in> set (properAncestors p @ [p])"
  then show "prefix x p"
    by (auto simp: properAncestors_def take_is_prefix)
next
  assume x: "x \<noteq> []" and "prefix x p"
  then obtain ys where p: "p = x @ ys" by (auto simp: prefix_def)
  show "x \<in> set (properAncestors p @ [p])"
  proof (cases "ys = []")
    case True
    with p show ?thesis by simp
  next
    case False
    with x p have "1 \<le> length x" "length x < length p" "take (length x) p = x"
      by (auto simp: Suc_le_eq)
    then have "x \<in> (\<lambda>n. take n p) ` {1..<length p}"
      by (metis atLeastLessThan_iff imageI)
    then show ?thesis by (simp add: properAncestors_def)
  qed
qed

lemma mkdir_lookup:
  assumes "mkdir p w = (Inr u, w')"
  shows "lookupNode w' q = (if lookupNode w q = None \<and> prefix q p then Some IDir else lookupNode w q)"
proof (cases "q = []")
  case True
  then show ?thesis by (simp add: lookupNode_def)
next
  case False
  from assms have n: "nodes w' = foldl addDir (nodes w) (properAncestors p @ [p])"
    by (auto simp: mkdir_def Let_def split: if_splits)
  show ?thesis
    unfolding lookupNode_def n map_of_foldl_addDir set_prefixes_of [OF False]
    using False by simp
qed

lemma mkdir_succeeds:
  assumes "\<forall>q. prefix q p \<longrightarrow> \<not> isFileNode (lookupNode w q)"
  shows "\<exists>w'. mkdir p w = (Inr (), w')"
proof -
  have "\<not> list_ex (\<lambda>q. isFileNode (lookupNode w q)) (properAncestors p)"
    using assms by (auto simp: list_ex_iff properAncestors_def take_is_prefix)
  moreover have "\<not> isFileNode (lookupNode w p)"
    using assms by simp
  ultimately show ?thesis
    by (simp add: mkdir_def Let_def)
qed

lemma writeFile_calls: "writeFile p d w = (r, w') \<Longrightarrow> calls w' = calls w @ [WriteFile p d]"
  by (auto simp: writeFile_def Let_def split: if_splits option.splits inode.splits)

lemma writeFile_fails: "writeFile p d w = (Inl e, w') \<Longrightarrow> nodes w' = nodes w"
  by (auto simp: writeFile_def Let_def split: if_splits option.splits inode.splits)

lemma writeFile_lookup:
  assumes "writeFile p d w = (Inr u, w')"
  shows "lookupNode w' q = (if q = p then Some (IFile d) else lookupNode w q)"
    and "lookupNode w p \<noteq> Some IDir"
    and "lookupNode w (butlast p) = Some IDir"
proof -
  from assms have n: "nodes w' = AList.update p (IFile d) (nodes w)" and p: "p \<noteq> []"
    and "lookupNode w p \<noteq> Some IDir" "lookupNode w (butlast p) = Some IDir"
    by (auto simp: writeFile_def Let_def split: if_splits option.splits inode.splits)
  then show "lookupNode w p \<noteq> Some IDir" "lookupNode w (butlast p) = Some IDir" by simp_all
  from n p show "lookupNode w' q = (if q = p then Some (IFile d) else lookupNode w q)"
    by (simp add: lookupNode_def update_conv')
qed

lemma grows_refl [simp]: "grows w w"
  by (simp add: grows_def)

lemma grows_trans: "grows w w1 \<Longrightarrow> grows w1 w2 \<Longrightarrow> grows w w2"
  by (auto simp: grows_def)

lemma isFileNode_iff: "isFileNode n \<longleftrightarrow> (\<exists>d. n = Some (IFile d))"
  by (cases n rule: isFileNode.cases) auto

lemma mkdir_grows: "mkdir p w = (r, w') \<Longrightarrow> grows w w'"
proof (cases r)
  case (Inl e)
  assume m: "mkdir p w = (r, w')"
  with Inl have "nodes w' = nodes w" by (simp add: mkdir_fails)
  with mkdir_calls [OF m] show ?thesis by (simp add: grows_def lookupNode_def)
next
  case (Inr u)
  assume m: "mkdir p w = (r, w')"
  with Inr have "mkdir p w = (Inr u, w')" by simp
  from mkdir_lookup [OF this] mkdir_calls [OF m] show ?thesis
    by (auto simp: grows_def)
qed

lemma writeFile_grows: "writeFile p d w = (r, w') \<Longrightarrow> grows w w'"
proof (cases r)
  case (Inl e)
  assume m: "writeFile p d w = (r, w')"
  with Inl have "nodes w' = nodes w" by (simp add: writeFile_fails)
  with writeFile_calls [OF m] show ?thesis by (simp add: grows_def lookupNode_def)
next
  case (Inr u)
  assume m: "writeFile p d w = (r, w')"
  with Inr have "writeFile p d w = (Inr u, w')" by simp
  from writeFile_lookup [OF this] writeFile_calls [OF m] show ?thesis
    by (auto simp: grows_def)
qed

lemma walk_grows:
  "copyTemplateTree compile es D ctx w = (r, w2) \<Longrightarrow> grows w w2"
  "copyEntries compile es D ctx w = (r, w2) \<Longrightarrow> grows w w2"
proof (induction compile es D ctx w and compile es D ctx w arbitrary: r w2 and r w2
    rule: copyTemplateTree_copyEntries.induct)
  case (1 compile entries destDir ctx w)
  obtain r1 w1 where m: "mkdir destDir w = (r1, w1)" by (cases "mkdir destDir w")
  show ?case
  proof (cases r1)
    case (Inl e)
    with m 1(2) have "w2 = w1" by simp
    with m show ?thesis by (auto dest: mkdir_grows)
  next
    case (Inr u)
    with m 1(2) have "copyEntries compile entries destDir ctx w1 = (r, w2)" by simp
    with 1(1) m Inr have "grows w1 w2" by simp
    with m show ?thesis by (auto dest: mkdir_grows intro: grows_trans)
  qed
next
  case (2 compile destDir ctx w)
  then show ?case by simp
next
  case (3 compile n cs rest destDir ctx w)
  show ?case
  proof (cases "n = str ''.DS_Store''")
    case True
    with 3 show ?thesis by simp
  next
    case False
    let ?q = "path_join destDir (destinationName (Directory n cs))"
    obtain r1 w1 where t: "copyTemplateTree compile cs ?q ctx w = (r1, w1)"
      by (cases "copyTemplateTree compile cs ?q ctx w")
    with 3(2) [OF False refl] have g1: "grows w w1" by simp
    show ?thesis
    proof (cases r1)
      case (Inl e)
      with t False 3(4) have "w2 = w1" by (simp add: Let_def)
      with g1 show ?thesis by simp
    next
      case (Inr u)
      with t False 3(4) have "copyEntries compile rest destDir ctx w1 = (r, w2)"
        by (simp add: Let_def)
      with 3(3) [OF False refl] t Inr have "grows w1 w2" by simp
      with g1 show ?thesis by (rule grows_trans)
    qed
  qed
next
  case (4 compile n templateContent rest destDir ctx w)
  show ?case
  proof (cases "n = str ''.DS_Store''")
    case True
    with 4 show ?thesis by simp
  next
    case False
    let ?q = "path_join destDir (destinationName (File n templateContent))"
    show ?thesis
    proof (cases "endsWith n (str ''.hbs'')")
      case True
      note hbs = this
      show ?thesis
      proof (cases "compile templateContent ctx")
        case (Inl e)
        with False hbs 4(4) show ?thesis by (simp add: Let_def)
      next
        case (Inr rendered)
        obtain r1 w1 where wr: "writeFile ?q rendered w = (r1, w1)"
          by (cases "writeFile ?q rendered w")
        then have g1: "grows w w1" by (rule writeFile_grows)
        show ?thesis
        proof (cases r1)
          case (Inl e)
          with wr Inr False hbs 4(4) have "w2 = w1" by (simp add: Let_def)
          with g1 show ?thesis by simp
        next
          case r1: (Inr u)
          with wr Inr False hbs 4(4) have "copyEntries compile rest destDir ctx w1 = (r, w2)"
            by (simp add: Let_def)
          with 4(2) [OF False refl hbs Inr] wr r1 have "grows w1 w2" by simp
          with g1 show ?thesis by (rule grows_trans)
        qed
      qed
    next
      case nohbs: False
      obtain r1 w1 where wr: "writeFile ?q templateContent w = (r1, w1)"
        by (cases "writeFile ?q templateContent w")
      then have g1: "grows w w1" by (rule writeFile_grows)
      show ?thesis
      proof (cases r1)
        case (Inl e)
        with wr False nohbs 4(4) have "w2 = w1" by (simp add: Let_def)
        with g1 show ?thesis by simp
      next
        case r1: (Inr u)
        with wr False nohbs 4(4) have "copyEntries compile rest destDir ctx w1 = (r, w2)"
          by (simp add: Let_def)
        with 4(3) [OF False refl nohbs] wr r1 have "grows w1 w2" by simp
        with g1 show ?thesis by (rule grows_trans)
      qed
    qed
  qed
qed

lemma freshWrites_Nil [simp]: "freshWrites w [] r w2"
  by (simp add: freshWrites_def writeTargets_def)

lemma freshWrites_Mkdir [simp]: "freshWrites w [Mkdir p] r w2"
  by (simp add: freshWrites_def writeTargets_def)

lemma freshWrites_failed:
  "\<not> isFileNode (lookupNode w q) \<Longrightarrow> freshWrites w [WriteFile q d] (Inl e) w2"
  by (simp add: freshWrites_def writeTargets_def)

lemma freshWrites_written:
  "\<not> isFileNode (lookupNode w q) \<Longrightarrow> isFileNode (lookupNode w2 q) \<Longrightarrow>
   freshWrites w [WriteFile q d] r w2"
  by (simp add: freshWrites_def writeTargets_def)

lemma freshWrites_append:
  assumes a: "freshWrites w new1 (Inr ()) w1" and b: "freshWrites w1 new2 r w2"
    and g1: "grows w w1" and g2: "grows w1 w2"
  shows "freshWrites w (new1 @ new2) r w2"
proof -
  have disj: "set (writeTargets new1) \<inter> set (writeTargets new2) = {}"
    using a b by (auto simp: freshWrites_def)
  have old: "\<forall>t\<in>set (writeTargets new2). \<not> isFileNode (lookupNode w t)"
    using b g1 by (auto simp: freshWrites_def grows_def)
  have fin: "\<forall>t\<in>set (writeTargets new1). isFileNode (lookupNode w2 t)"
    using a g2 by (auto simp: freshWrites_def grows_def)
  from a b disj old fin show ?thesis
    by (auto simp: freshWrites_def writeTargets_def)
qed

lemma freshWrites_Mkdir_Cons:
  "freshWrites w1 new r w2 \<Longrightarrow> grows w w1 \<Longrightarrow> freshWrites w (Mkdir p # new) r w2"
  by (auto simp: freshWrites_def writeTargets_def grows_def)

lemma freshWrites_result: "freshWrites w new (Inr ()) w2 \<Longrightarrow> freshWrites w new r w2"
  by (simp add: freshWrites_def)

lemma destinationNames_Cons:
  "destinationNames (e # es) =
     (if name e = str ''.DS_Store'' then destinationNames es else destinationName e # destinationNames es)"
  by (simp add: destinationNames_def)

lemma destinationNames_Nil [simp]: "destinationNames [] = []"
  by (simp add: destinationNames_def)

lemma mkdir_ok_prefixes:
  assumes "mkdir p w = (Inr u, w')" and "prefix q p"
  shows "\<not> isFileNode (lookupNode w q)"
proof (cases "q = p")
  case True
  with assms(1) show ?thesis
    by (auto simp: mkdir_def Let_def split: if_splits)
next
  case False
  show ?thesis
  proof (cases "q = []")
    case True
    then show ?thesis by (simp add: lookupNode_def)
  next
    case ne: False
    from assms(2) False have "strict_prefix q p" by (simp add: strict_prefix_def)
    then obtain ys where p: "p = q @ ys" "ys \<noteq> []"
      by (auto simp: strict_prefix_def prefix_def)
    with ne have "1 \<le> length q" "length q < length p" "take (length q) p = q"
      by (auto simp: Suc_le_eq)
    then have "q \<in> (\<lambda>n. take n p) ` {1..<length p}"
      by (metis atLeastLessThan_iff imageI)
    then have "q \<in> set (properAncestors p)" by (simp add: properAncestors_def)
    moreover from assms(1) have "\<not> list_ex (\<lambda>q. isFileNode (lookupNode w q)) (properAncestors p)"
      by (auto simp: mkdir_def Let_def split: if_splits)
    ultimately show ?thesis by (auto simp: list_ex_iff)
  qed
qed

lemma mkdir_dirChain:
  assumes "mkdir p w = (Inr u, w')"
  shows "dirChain w' p"
  unfolding dirChain_def
proof (intro allI impI)
  fix q assume q: "prefix q p"
  from mkdir_ok_prefixes [OF assms q] have "lookupNode w q = None \<or> lookupNode w q = Some IDir"
    by (cases "lookupNode w q" rule: isFileNode.cases) auto
  with q show "lookupNode w' q = Some IDir"
    by (auto simp: mkdir_lookup [OF assms])
qed

lemma stripHbs_names:
  assumes "validName n"
  shows "validName (stripHbs n) \<or> path_join D (stripHbs n) = D \<or> path_join D (stripHbs n) = butlast D"
proof (cases "endsWith n (str ''.hbs'')")
  case False
  with assms show ?thesis by (simp add: stripHbs_def)
next
  case True
  let ?dn = "take (length n - 4) n"
  have "set ?dn \<subseteq> set n" by (rule set_take_subset)
  with assms have slash: "Latin1 CHR ''/'' \<notin> set ?dn" by (auto simp: validName_def)
  have s: "stripHbs n = ?dn" using True by (simp add: stripHbs_def)
  show ?thesis
  proof (cases "?dn = [] \<or> ?dn = str ''.'' \<or> ?dn = str ''..''")
    case True
    then show ?thesis
      unfolding s by (auto simp: path_join_def pathStep_def str_def)
  next
    case False
    with slash show ?thesis
      unfolding s by (simp add: validName_def)
  qed
qed

lemma path_join_valid: "validName dn \<Longrightarrow> path_join D dn = D @ [dn]"
  by (simp add: validName_def path_join_plain)

lemma lookupNode_cong: "nodes w1 = nodes w \<Longrightarrow> lookupNode w1 p = lookupNode w p"
  by (simp add: lookupNode_def)

lemma write_step:
  assumes wr: "writeFile q d w = (r1, w1)"
    and q: "q = path_join D (stripHbs n)" and n: "validName n"
    and chain: "dirChain w D"
    and clear: "validName (stripHbs n) \<longrightarrow> (\<forall>p. prefix (D @ [stripHbs n]) p \<longrightarrow> lookupNode w p = None)"
  shows "\<not> isFileNode (lookupNode w q)"
    and "r1 = Inr u \<Longrightarrow> validName (stripHbs n) \<and> q = D @ [stripHbs n] \<and>
           isFileNode (lookupNode w1 q) \<and> (\<forall>x. x \<noteq> q \<longrightarrow> lookupNode w1 x = lookupNode w x)"
    and "r1 = Inl e \<Longrightarrow> (\<forall>x. lookupNode w1 x = lookupNode w x)"
    and "calls w1 = calls w @ [WriteFile q d]"
proof -
  from stripHbs_names [OF n, of D]
  have cases: "(validName (stripHbs n) \<and> q = D @ [stripHbs n] \<and> lookupNode w q = None) \<or>
               lookupNode w q = Some IDir"
  proof (elim disjE)
    assume v: "validName (stripHbs n)"
    with q have "q = D @ [stripHbs n]" by (simp add: path_join_valid)
    with v clear show ?thesis by simp
  next
    assume "path_join D (stripHbs n) = D"
    with q chain show ?thesis by (simp add: dirChain_def)
  next
    assume "path_join D (stripHbs n) = butlast D"
    with q have "prefix q D" by (simp add: prefixeq_butlast)
    with chain show ?thesis by (simp add: dirChain_def)
  qed
  then show "\<not> isFileNode (lookupNode w q)" by auto
  show "calls w1 = calls w @ [WriteFile q d]"
    using wr by (rule writeFile_calls)
  show "r1 = Inl e \<Longrightarrow> (\<forall>x. lookupNode w1 x = lookupNode w x)"
    using wr by (auto dest: writeFile_fails intro: lookupNode_cong)
  show "r1 = Inr u \<Longrightarrow> validName (stripHbs n) \<and> q = D @ [stripHbs n] \<and>
           isFileNode (lookupNode w1 q) \<and> (\<forall>x. x \<noteq> q \<longrightarrow> lookupNode w1 x = lookupNode w x)"
  proof -
    assume "r1 = Inr u"
    with wr have ok: "writeFile q d w = (Inr u, w1)" by simp
    from writeFile_lookup(2) [OF ok] cases
    have "validName (stripHbs n) \<and> q = D @ [stripHbs n]" by auto
    with writeFile_lookup(1) [OF ok] show ?thesis by simp
  qed
qed

lemma append_last_prefix: "prefix (D @ [a]) p \<Longrightarrow> prefix (D @ [b]) p \<Longrightarrow> a = b"
  by (auto simp: prefix_def append_eq_append_conv2 Cons_eq_append_conv)

lemma not_prefix_longer: "prefix (D @ [a]) x \<Longrightarrow> prefix x D \<Longrightarrow> False"
  by (auto dest!: prefix_length_le)

lemma snoc_prefix_strict: "prefix (D @ [a]) p \<Longrightarrow> strict_prefix D p"
proof -
  assume "prefix (D @ [a]) p"
  then obtain ys where "p = D @ a # ys" by (auto simp: prefix_def)
  then show ?thesis by (simp add: strict_prefix_def)
qed

lemma prefix_snoc_cases: "prefix x (D @ [a]) \<Longrightarrow> x = D @ [a] \<or> prefix x D"
  by (auto simp: prefix_snoc)

lemma pre_rest:
  assumes chain: "dirChain w D" and clear: "clearTargets w D (e # rest)"
    and e: "name e \<noteq> str ''.DS_Store''" "destinationName e = dn"
    and fresh: "dn \<notin> set (destinationNames rest)"
    and unch: "\<forall>x. \<not> prefix (D @ [dn]) x \<longrightarrow> lookupNode w1 x = lookupNode w x"
  shows "dirChain w1 D" and "clearTargets w1 D rest"
proof -
  show "dirChain w1 D"
    unfolding dirChain_def
  proof (intro allI impI)
    fix x assume x: "prefix x D"
    then have "\<not> prefix (D @ [dn]) x" by (auto dest: not_prefix_longer)
    with unch chain x show "lookupNode w1 x = Some IDir" by (simp add: dirChain_def)
  qed
  show "clearTargets w1 D rest"
    unfolding clearTargets_def
  proof (intro ballI impI allI)
    fix dn' p assume d: "dn' \<in> set (destinationNames rest)" "validName dn'" "prefix (D @ [dn']) p"
    with fresh have "\<not> prefix (D @ [dn]) p" by (auto dest: append_last_prefix)
    with unch have "lookupNode w1 p = lookupNode w p" by simp
    also from clear d e have "lookupNode w p = None"
      by (simp add: clearTargets_def destinationNames_Cons)
    finally show "lookupNode w1 p = None" .
  qed
qed

lemma continue_rest:
  assumes first: "calls w1 = calls w @ new1" "freshWrites w new1 (Inr ()) w1"
    and g: "grows w w1" "grows w1 w2"
    and e: "name e \<noteq> str ''.DS_Store''" "destinationName e = dn" "validName dn"
    and unch: "\<forall>x. \<not> prefix (D @ [dn]) x \<longrightarrow> lookupNode w1 x = lookupNode w x"
    and rest: "(\<exists>new2. calls w2 = calls w1 @ new2 \<and> freshWrites w1 new2 r w2) \<and>
               (\<forall>p. outsideTargets D rest p \<longrightarrow> lookupNode w2 p = lookupNode w1 p)"
  shows "(\<exists>new. calls w2 = calls w @ new \<and> freshWrites w new r w2) \<and>
         (\<forall>p. outsideTargets D (e # rest) p \<longrightarrow> lookupNode w2 p = lookupNode w p)"
proof
  from rest obtain new2 where n2: "calls w2 = calls w1 @ new2" "freshWrites w1 new2 r w2" by blast
  from first(2) n2(2) g have "freshWrites w (new1 @ new2) r w2" by (rule freshWrites_append)
  moreover from first(1) n2(1) have "calls w2 = calls w @ (new1 @ new2)" by simp
  ultimately show "\<exists>new. calls w2 = calls w @ new \<and> freshWrites w new r w2" by blast
  show "\<forall>p. outsideTargets D (e # rest) p \<longrightarrow> lookupNode w2 p = lookupNode w p"
  proof (intro allI impI)
    fix p assume "outsideTargets D (e # rest) p"
    with e have "\<not> prefix (D @ [dn]) p" "outsideTargets D rest p"
      by (auto simp: outsideTargets_def destinationNames_Cons)
    with unch rest show "lookupNode w2 p = lookupNode w p" by simp
  qed
qed

lemma skip_ignored:
  assumes "name e = str ''.DS_Store''"
  shows "clearTargets w D (e # rest) = clearTargets w D rest"
    and "outsideTargets D (e # rest) p = outsideTargets D rest p"
    and "destinationNames (e # rest) = destinationNames rest"
  using assms by (simp_all add: clearTargets_def outsideTargets_def destinationNames_Cons)

lemma walk_fresh:
  "copyTemplateTree compile es D ctx w = (r, w2) \<Longrightarrow> list_all wellNamed es \<Longrightarrow>
     distinct (destinationNames es) \<Longrightarrow> emptyBelow w D \<Longrightarrow>
     (\<exists>new. calls w2 = calls w @ new \<and> freshWrites w new r w2) \<and>
     (\<forall>p. lookupNode w p \<noteq> None \<longrightarrow> lookupNode w2 p = lookupNode w p) \<and>
     (\<forall>p. \<not> prefix D p \<and> \<not> prefix p D \<longrightarrow> lookupNode w2 p = lookupNode w p)"
  "copyEntries compile es D ctx w = (r, w2) \<Longrightarrow> list_all wellNamed es \<Longrightarrow>
     distinct (destinationNames es) \<Longrightarrow> dirChain w D \<Longrightarrow> clearTargets w D es \<Longrightarrow>
     (\<exists>new. calls w2 = calls w @ new \<and> freshWrites w new r w2) \<and>
     (\<forall>p. outsideTargets D es p \<longrightarrow> lookupNode w2 p = lookupNode w p)"
proof (induction compile es D ctx w and compile es D ctx w arbitrary: r w2 and r w2
    rule: copyTemplateTree_copyEntries.induct)
  case (1 compile entries destDir ctx w)
  obtain r1 w1 where m: "mkdir destDir w = (r1, w1)" by (cases "mkdir destDir w")
  have c1: "calls w1 = calls w @ [Mkdir destDir]" using m by (rule mkdir_calls)
  show ?case
  proof (cases r1)
    case (Inl e)
    with m 1(2) have r: "r = Inl e" "w2 = w1" by simp_all
    from m Inl have "nodes w1 = nodes w" by (auto dest: mkdir_fails)
    then have same: "\<forall>p. lookupNode w1 p = lookupNode w p" by (simp add: lookupNode_def)
    have "freshWrites w [Mkdir destDir] r w2" by simp
    with c1 r have "\<exists>new. calls w2 = calls w @ new \<and> freshWrites w new r w2" by blast
    with same r show ?thesis by simp
  next
    case (Inr u)
    with m have ok: "mkdir destDir w = (Inr u, w1)" by simp
    from ok 1(2) have run: "copyEntries compile entries destDir ctx w1 = (r, w2)" by simp
    have chain: "dirChain w1 destDir" using ok by (rule mkdir_dirChain)
    have below: "\<And>p. strict_prefix destDir p \<Longrightarrow> lookupNode w1 p = None"
      using 1(5) by (auto simp: mkdir_lookup [OF ok] emptyBelow_def)
    have clear: "clearTargets w1 destDir entries"
      unfolding clearTargets_def
    proof (intro ballI impI allI)
      fix dn p assume "prefix (destDir @ [dn]) p"
      then have "strict_prefix destDir p" by (rule snoc_prefix_strict)
      then show "lookupNode w1 p = None" by (rule below)
    qed
    from 1(1) [OF m [symmetric] Inr run 1(3) 1(4) chain clear]
    obtain new where n: "calls w2 = calls w1 @ new" "freshWrites w1 new r w2"
      and frame: "\<forall>p. outsideTargets destDir entries p \<longrightarrow> lookupNode w2 p = lookupNode w1 p"
      by blast
    have g: "grows w w1" using m by (rule mkdir_grows)
    have "freshWrites w (Mkdir destDir # new) r w2"
      using n(2) g by (rule freshWrites_Mkdir_Cons)
    moreover have "calls w2 = calls w @ (Mkdir destDir # new)" using n(1) c1 by simp
    ultimately have A: "\<exists>new. calls w2 = calls w @ new \<and> freshWrites w new r w2" by blast
    have out: "\<And>p. \<not> strict_prefix destDir p \<Longrightarrow> outsideTargets destDir entries p"
      unfolding outsideTargets_def by (auto dest: snoc_prefix_strict)
    have B: "\<forall>p. lookupNode w p \<noteq> None \<longrightarrow> lookupNode w2 p = lookupNode w p"
    proof (intro allI impI)
      fix p assume p: "lookupNode w p \<noteq> None"
      with 1(5) have "\<not> strict_prefix destDir p" by (auto simp: emptyBelow_def)
      with frame out have "lookupNode w2 p = lookupNode w1 p" by simp
      with p show "lookupNode w2 p = lookupNode w p" by (simp add: mkdir_lookup [OF ok])
    qed
    have C: "\<forall>p. \<not> prefix destDir p \<and> \<not> prefix p destDir \<longrightarrow> lookupNode w2 p = lookupNode w p"
    proof (intro allI impI)
      fix p assume p: "\<not> prefix destDir p \<and> \<not> prefix p destDir"
      then have "\<not> strict_prefix destDir p" by (simp add: strict_prefix_def)
      with frame out have "lookupNode w2 p = lookupNode w1 p" by simp
      with p show "lookupNode w2 p = lookupNode w p" by (simp add: mkdir_lookup [OF ok])
    qed
    from A B C show ?thesis by simp
  qed
next
  case (2 compile destDir ctx w)
  then have "r = Inr ()" "w2 = w" by simp_all
  then show ?case by simp
next
  case (3 compile n cs rest destDir ctx w)
  let ?e = "Directory n cs"
  let ?q = "path_join destDir (destinationName ?e)"
  from 3(5) have wn: "validName n" "list_all wellNamed cs" "distinct (destinationNames cs)"
    "list_all wellNamed rest" by simp_all
  show ?case
  proof (cases "n = str ''.DS_Store''")
    case True
    with 3(4) have run: "copyEntries compile rest destDir ctx w = (r, w2)" by simp
    from True have nm: "name ?e = str ''.DS_Store''" by simp
    from 3(6) have d: "distinct (destinationNames rest)" by (simp add: skip_ignored(3) [OF nm])
    from 3(8) have c: "clearTargets w destDir rest" by (simp add: skip_ignored(1) [OF nm])
    from 3(1) [OF True run wn(4) d 3(7) c] show ?thesis
      by (simp add: skip_ignored(2) [OF nm])
  next
    case False
    then have nm: "name ?e \<noteq> str ''.DS_Store''" by simp
    have dn: "destinationName ?e = n" by (simp add: destinationName_def)
    have q: "?q = destDir @ [n]" by (simp add: dn path_join_valid wn(1))
    from False 3(6) have d: "n \<notin> set (destinationNames rest)" "distinct (destinationNames rest)"
      by (simp_all add: destinationNames_Cons dn)
    from False 3(8) wn(1) have below: "\<forall>p. prefix (destDir @ [n]) p \<longrightarrow> lookupNode w p = None"
      by (simp add: clearTargets_def destinationNames_Cons dn)
    then have eb: "emptyBelow w ?q" by (simp add: emptyBelow_def strict_prefix_def q)
    obtain r1 w1 where t: "copyTemplateTree compile cs ?q ctx w = (r1, w1)"
      by (cases "copyTemplateTree compile cs ?q ctx w")
    from 3(2) [OF False refl t wn(2) wn(3) eb]
    obtain new1 where n1: "calls w1 = calls w @ new1" "freshWrites w new1 r1 w1"
      and old: "\<forall>p. lookupNode w p \<noteq> None \<longrightarrow> lookupNode w1 p = lookupNode w p"
      and apart: "\<forall>p. \<not> prefix ?q p \<and> \<not> prefix p ?q \<longrightarrow> lookupNode w1 p = lookupNode w p"
      by blast
    have U: "\<forall>x. \<not> prefix (destDir @ [n]) x \<longrightarrow> lookupNode w1 x = lookupNode w x"
    proof (intro allI impI)
      fix x assume x: "\<not> prefix (destDir @ [n]) x"
      show "lookupNode w1 x = lookupNode w x"
      proof (cases "lookupNode w x = None")
        case False
        with old show ?thesis by simp
      next
        case True
        have "\<not> prefix x (destDir @ [n])"
        proof
          assume "prefix x (destDir @ [n])"
          then have "x = destDir @ [n] \<or> prefix x destDir" by (rule prefix_snoc_cases)
          with x have "prefix x destDir" by auto
          with 3(7) True show False by (simp add: dirChain_def)
        qed
        with x apart show ?thesis by (simp add: q)
      qed
    qed
    show ?thesis
    proof (cases r1)
      case (Inl e)
      with t False 3(4) have r: "r = Inl e" "w2 = w1" by (simp_all add: Let_def)
      from n1 r Inl have "\<exists>new. calls w2 = calls w @ new \<and> freshWrites w new r w2" by blast
      moreover have "\<forall>p. outsideTargets destDir (?e # rest) p \<longrightarrow> lookupNode w2 p = lookupNode w p"
        using U r nm dn wn(1) by (simp add: outsideTargets_def destinationNames_Cons)
      ultimately show ?thesis by simp
    next
      case (Inr u)
      with t False 3(4) have run: "copyEntries compile rest destDir ctx w1 = (r, w2)"
        by (simp add: Let_def)
      note pre = pre_rest [OF 3(7) 3(8) nm dn d(1) U]
      note ih = 3(3) [OF False refl t [symmetric] Inr run wn(4) d(2) pre]
      from n1(2) Inr have f1: "freshWrites w new1 (Inr ()) w1" by simp
      have g1: "grows w w1" using t by (rule walk_grows(1))
      have g2: "grows w1 w2" using run by (rule walk_grows(2))
      show ?thesis
        by (rule continue_rest [OF n1(1) f1 g1 g2 nm dn wn(1) U ih])
    qed
  qed
next
  case (4 compile n templateContent rest destDir ctx w)
  let ?e = "File n templateContent"
  let ?q = "path_join destDir (destinationName ?e)"
  from 4(5) have wn: "validName n" "list_all wellNamed rest" by simp_all
  show ?case
  proof (cases "n = str ''.DS_Store''")
    case True
    with 4(4) have run: "copyEntries compile rest destDir ctx w = (r, w2)" by simp
    from True have nm: "name ?e = str ''.DS_Store''" by simp
    from 4(6) have d: "distinct (destinationNames rest)" by (simp add: skip_ignored(3) [OF nm])
    from 4(8) have c: "clearTargets w destDir rest" by (simp add: skip_ignored(1) [OF nm])
    from 4(1) [OF True run wn(2) d 4(7) c] show ?thesis
      by (simp add: skip_ignored(2) [OF nm])
  next
    case False
    then have nm: "name ?e \<noteq> str ''.DS_Store''" by simp
    have dn: "destinationName ?e = stripHbs n" by (simp add: destinationName_def)
    have q: "?q = path_join destDir (stripHbs n)" by (simp add: dn)
    from False 4(6) have d: "stripHbs n \<notin> set (destinationNames rest)" "distinct (destinationNames rest)"
      by (simp_all add: destinationNames_Cons dn)
    have clr: "validName (stripHbs n) \<longrightarrow> (\<forall>p. prefix (destDir @ [stripHbs n]) p \<longrightarrow> lookupNode w p = None)"
      using False 4(8) by (simp add: clearTargets_def destinationNames_Cons dn)
    have step: "(\<exists>new. calls w2 = calls w @ new \<and> freshWrites w new r w2) \<and>
         (\<forall>p. outsideTargets destDir (?e # rest) p \<longrightarrow> lookupNode w2 p = lookupNode w p)"
      if wr: "writeFile ?q d w = (r1, w1)"
        and fail: "\<And>e. r1 = Inl e \<Longrightarrow> r = Inl e \<and> w2 = w1"
        and run: "\<And>u. r1 = Inr u \<Longrightarrow> copyEntries compile rest destDir ctx w1 = (r, w2)"
        and ih: "\<And>u. r1 = Inr u \<Longrightarrow> dirChain w1 destDir \<Longrightarrow> clearTargets w1 destDir rest \<Longrightarrow>
            (\<exists>new. calls w2 = calls w1 @ new \<and> freshWrites w1 new r w2) \<and>
            (\<forall>p. outsideTargets destDir rest p \<longrightarrow> lookupNode w2 p = lookupNode w1 p)"
      for d r1 w1
    proof -
      note ws = write_step [OF wr q wn(1) 4(7) clr]
      show ?thesis
      proof (cases r1)
        case (Inl e)
        with fail have r: "r = Inl e" "w2 = w1" by simp_all
        have "freshWrites w [WriteFile ?q d] (Inl e) w2" using ws(1) by (rule freshWrites_failed)
        with ws(4) r have "\<exists>new. calls w2 = calls w @ new \<and> freshWrites w new r w2" by blast
        with ws(3) [OF Inl] r show ?thesis by simp
      next
        case (Inr u)
        from ws(2) [OF Inr] have v: "validName (stripHbs n)" and qq: "?q = destDir @ [stripHbs n]"
          and written: "isFileNode (lookupNode w1 ?q)"
          and other: "\<forall>x. x \<noteq> ?q \<longrightarrow> lookupNode w1 x = lookupNode w x" by blast+
        have U: "\<forall>x. \<not> prefix (destDir @ [stripHbs n]) x \<longrightarrow> lookupNode w1 x = lookupNode w x"
          using other qq by auto
        note pre = pre_rest [OF 4(7) 4(8) nm dn d(1) U]
        note post = ih [OF Inr pre]
        have f1: "freshWrites w [WriteFile ?q d] (Inr ()) w1"
          using ws(1) written by (rule freshWrites_written)
        have g1: "grows w w1" using wr by (rule writeFile_grows)
        have g2: "grows w1 w2" using run [OF Inr] by (rule walk_grows(2))
        show ?thesis
          by (rule continue_rest [OF ws(4) f1 g1 g2 nm dn v U post])
      qed
    qed
    show ?thesis
    proof (cases "endsWith n (str ''.hbs'')")
      case True
      note hbs = this
      show ?thesis
      proof (cases "compile templateContent ctx")
        case (Inl e)
        with False hbs 4(4) have "r = Inl e" "w2 = w" by (simp_all add: Let_def)
        then show ?thesis by simp
      next
        case (Inr rendered)
        obtain r1 w1 where wr: "writeFile ?q rendered w = (r1, w1)"
          by (cases "writeFile ?q rendered w")
        show ?thesis
        proof (rule step [OF wr])
          fix e assume "r1 = Inl e"
          with wr Inr False hbs 4(4) show "r = Inl e \<and> w2 = w1" by (simp add: Let_def)
        next
          fix u assume "r1 = Inr u"
          with wr Inr False hbs 4(4) show "copyEntries compile rest destDir ctx w1 = (r, w2)"
            by (simp add: Let_def)
        next
          fix u assume r1: "r1 = Inr u" and pre: "dirChain w1 destDir" "clearTargets w1 destDir rest"
          from r1 wr Inr False hbs 4(4) have run: "copyEntries compile rest destDir ctx w1 = (r, w2)"
            by (simp add: Let_def)
          show "(\<exists>new. calls w2 = calls w1 @ new \<and> freshWrites w1 new r w2) \<and>
            (\<forall>p. outsideTargets destDir rest p \<longrightarrow> lookupNode w2 p = lookupNode w1 p)"
            by (rule 4(2) [OF False refl hbs Inr wr [symmetric] r1 run wn(2) d(2) pre])
        qed
      qed
    next
      case nohbs: False
      obtain r1 w1 where wr: "writeFile ?q templateContent w = (r1, w1)"
        by (cases "writeFile ?q templateContent w")
      show ?thesis
      proof (rule step [OF wr])
        fix e assume "r1 = Inl e"
        with wr False nohbs 4(4) show "r = Inl e \<and> w2 = w1" by (simp add: Let_def)
      next
        fix u assume "r1 = Inr u"
        with wr False nohbs 4(4) show "copyEntries compile rest destDir ctx w1 = (r, w2)"
          by (simp add: Let_def)
      next
        fix u assume r1: "r1 = Inr u" and pre: "dirChain w1 destDir" "clearTargets w1 destDir rest"
        from r1 wr False nohbs 4(4) have run: "copyEntries compile rest destDir ctx w1 = (r, w2)"
          by (simp add: Let_def)
        show "(\<exists>new. calls w2 = calls w1 @ new \<and> freshWrites w1 new r w2) \<and>
          (\<forall>p. outsideTargets destDir rest p \<longrightarrow> lookupNode w2 p = lookupNode w1 p)"
          by (rule 4(3) [OF False refl nohbs wr [symmetric] r1 run wn(2) d(2) pre])
      qed
    qed
  qed
qed

text \<open>
  Claim C8, as stated: two siblings that map to the same destination name. The file
  \<^verbatim>\<open>x\<close> is written with the content of the source file \<^verbatim>\<open>x\<close> and then written again,
  with the rendering of \<^verbatim>\<open>x.hbs\<close>, which replaces what the first write left.
\<close>

theorem sibling_collision_counterexample:
  "copyTemplateTree Handlebars_compile
     [File (str ''x'') (str ''raw''), File (str ''x.hbs'') (str ''Hi {{projectName}}'')]
     [str ''out'']
     \<lparr>pluginName = str ''Demo'', pluginDescription = str ''A demo'', pluginIcon = str ''null'',
      projectName = str ''demo'', projectSlug = str ''demo''\<rparr>
     \<lparr>nodes = [], calls = []\<rparr> =
   (Inr (),
    \<lparr>nodes = [([str ''out''], IDir), ([str ''out'', str ''x''], IFile (str ''Hi demo''))],
     calls = [Mkdir [str ''out''], WriteFile [str ''out'', str ''x''] (str ''raw''),
              WriteFile [str ''out'', str ''x''] (str ''Hi demo'')]\<rparr>)"
  by (simp add: fs_eval hb_eval)

text \<open>
  Claim C8, amended. During one materialization pass nothing is removed: a path that is a
  directory stays a directory and a path that is a file stays a file, and the calls of
  the pass are appended to the record. When the entries of the source tree have the names
  a directory listing gives them, the entries of each source directory map to pairwise
  different destination names, and nothing lies below the destination directory before the
  pass, then every destination path is written at most once, and every node that existed
  before the pass is after the pass what it was, content included.
\<close>

theorem materialize_monotone:
  assumes "copyTemplateTree compile es D ctx w = (r, w2)"
  shows "(\<forall>p. (lookupNode w p = Some IDir \<longrightarrow> lookupNode w2 p = Some IDir) \<and>
              ((\<exists>d. lookupNode w p = Some (IFile d)) \<longrightarrow> (\<exists>d. lookupNode w2 p = Some (IFile d)))) \<and>
         take (length (calls w)) (calls w2) = calls w \<and>
         (wellFormedDir es \<and> (\<forall>p. strict_prefix D p \<longrightarrow> lookupNode w p = None) \<longrightarrow>
            distinct (writeTargets (drop (length (calls w)) (calls w2))) \<and>
            (\<forall>p. lookupNode w p \<noteq> None \<longrightarrow> lookupNode w2 p = lookupNode w p))"
proof (intro conjI impI)
  from walk_grows(1) [OF assms]
  show "\<forall>p. (lookupNode w p = Some IDir \<longrightarrow> lookupNode w2 p = Some IDir) \<and>
              ((\<exists>d. lookupNode w p = Some (IFile d)) \<longrightarrow> (\<exists>d. lookupNode w2 p = Some (IFile d)))"
    by (simp add: grows_def isFileNode_iff)
  from walk_grows(1) [OF assms] have "prefix (calls w) (calls w2)"
    by (simp add: grows_def)
  then show "take (length (calls w)) (calls w2) = calls w"
    by (auto simp: prefix_def)
next
  assume "wellFormedDir es \<and> (\<forall>p. strict_prefix D p \<longrightarrow> lookupNode w p = None)"
  then have h: "list_all wellNamed es" "distinct (destinationNames es)" "emptyBelow w D"
    by (simp_all add: wellFormedDir_def emptyBelow_def)
  from walk_fresh(1) [OF assms h]
  obtain new where n: "calls w2 = calls w @ new" "freshWrites w new r w2"
    and old: "\<forall>p. lookupNode w p \<noteq> None \<longrightarrow> lookupNode w2 p = lookupNode w p"
    by blast
  from n show "distinct (writeTargets (drop (length (calls w)) (calls w2)))"
    by (simp add: freshWrites_def)
  from old show "\<forall>p. lookupNode w p \<noteq> None \<longrightarrow> lookupNode w2 p = lookupNode w p" .
qed

theorem materialize_monotone_witness:
  "distinct (writeTargets (calls (snd (copyTemplateTree Handlebars_compile
      [File (str ''a.txt'') (str ''hello''), File (str ''b.txt.hbs'') (str ''Hi {{projectName}}''),
       Directory (str ''sub'') [File (str ''c.txt.hbs'') (str ''{{pluginIcon}}'')]]
      [str ''out'']
      \<lparr>pluginName = str ''Demo'', pluginDescription = str ''A demo'', pluginIcon = str ''null'',
       projectName = str ''demo'', projectSlug = str ''demo''\<rparr>
      \<lparr>nodes = [([str ''keep''], IFile (str ''k''))], calls = []\<rparr>)))) \<and>
   lookupNode (snd (copyTemplateTree Handlebars_compile
      [File (str ''a.txt'') (str ''hello''), File (str ''b.txt.hbs'') (str ''Hi {{projectName}}''),
       Directory (str ''sub'') [File (str ''c.txt.hbs'') (str ''{{pluginIcon}}'')]]
      [str ''out'']
      \<lparr>pluginName = str ''Demo'', pluginDescription = str ''A demo'', pluginIcon = str ''null'',
       projectName = str ''demo'', projectSlug = str ''demo''\<rparr>
      \<lparr>nodes = [([str ''keep''], IFile (str ''k''))], calls = []\<rparr>)) [str ''keep''] = Some (IFile (str ''k''))"
proof -
  let ?es = "[File (str ''a.txt'') (str ''hello''), File (str ''b.txt.hbs'') (str ''Hi {{projectName}}''),
       Directory (str ''sub'') [File (str ''c.txt.hbs'') (str ''{{pluginIcon}}'')]]"
  let ?ctx = "\<lparr>pluginName = str ''Demo'', pluginDescription = str ''A demo'', pluginIcon = str ''null'',
       projectName = str ''demo'', projectSlug = str ''demo''\<rparr>"
  let ?w = "\<lparr>nodes = [([str ''keep''], IFile (str ''k''))], calls = []\<rparr>"
  obtain r w2 where run: "copyTemplateTree Handlebars_compile ?es [str ''out''] ?ctx ?w = (r, w2)"
    by (cases "copyTemplateTree Handlebars_compile ?es [str ''out''] ?ctx ?w")
  have wf: "wellFormedDir ?es"
    by (simp add: wellFormedDir_def validName_def destinationNames_def destinationName_def
        stripHbs_def endsWith_def str_def)
  have eb: "\<forall>p. strict_prefix [str ''out''] p \<longrightarrow> lookupNode ?w p = None"
    by (auto simp: lookupNode_def strict_prefix_def prefix_def)
  have k: "lookupNode ?w [str ''keep''] \<noteq> None"
    by (simp add: lookupNode_def)
  from materialize_monotone [OF run] wf eb
  have "distinct (writeTargets (drop (length (calls ?w)) (calls w2)))"
    and "\<forall>p. lookupNode ?w p \<noteq> None \<longrightarrow> lookupNode w2 p = lookupNode ?w p"
    by blast+
  with k have "distinct (writeTargets (calls w2))" "lookupNode w2 [str ''keep''] = lookupNode ?w [str ''keep'']"
    by simp_all
  then show ?thesis
    unfolding run by (simp add: lookupNode_def)
qed

end
